theory Spec2Isabelle
  imports Main "HOL-Library.Signed_Division"
begin

section \<open>C arithmetic and the C library functions the mappers call\<close>

text \<open>
  The C type \<open>int\<close> is modelled by \<^typ>\<open>int\<close>. C's \<open>/\<close> and \<open>%\<close> truncate toward zero,
  which is \<open>sdiv\<close> and \<open>smod\<close> (HOL's \<open>div\<close> and \<open>mod\<close> round toward minus infinity).
  A division by zero is undefined behaviour in C; every function that divides reports it
  as the fault \<open>DivisionByZero\<close> instead of using HOL's \<open>x sdiv 0 = 0\<close>.
  The 32-bit wrap-around of \<open>int\<close> is written out: \<open>to_int\<close> reduces a value to the
  range from \<open>-2^31\<close> to \<open>2^31 - 1\<close>, and \<open>add32\<close>, \<open>sub32\<close> and \<open>mul32\<close> are \<open>+\<close>, \<open>-\<close> and
  \<open>*\<close> with the result reduced. They are used for every sum, difference and product of
  the U-, V- and Windmill mappers and for the angle of the Rotate mapper. Three kinds of
  results are left as they are, since they cannot leave the range for arguments of type
  \<open>int\<close>: a quotient or remainder (but for \<open>INT_MIN / -1\<close>, which C leaves undefined as
  well), a difference of two values that are 0, 1 or -1, and the differences of a matrix
  dimension and a coordinate of the canvas in the Rotate and Mirror mappers.
\<close>

datatype fault = DivisionByZero | OutputsNotWritten

definition isspace :: "char \<Rightarrow> bool" where
  "isspace c = (let n = (of_char c :: nat) in n = 32 \<or> (9 \<le> n \<and> n \<le> 13))"

definition isdigit :: "char \<Rightarrow> bool" where
  "isdigit c = (let n = (of_char c :: nat) in 48 \<le> n \<and> n \<le> 57)"

definition digit_value :: "char \<Rightarrow> int" where
  "digit_value c = int (of_char c) - 48"

definition tolower :: "char \<Rightarrow> char" where
  "tolower c = (let n = (of_char c :: nat) in
     if 65 \<le> n \<and> n \<le> 90 then char_of (n + 32) else c)"

text \<open>\<open>strcasecmp(s, t) == 0\<close>: the two strings agree after lower-casing each character.\<close>

definition strcasecmp_equal :: "string \<Rightarrow> string \<Rightarrow> bool" where
  "strcasecmp_equal s t = (map tolower s = map tolower t)"

definition LONG_MAX :: int where
  "LONG_MAX = 2 ^ 63 - 1"

definition LONG_MIN :: int where
  "LONG_MIN = - (2 ^ 63)"

text \<open>The conversion of a \<open>long\<close> to the 32-bit \<open>int\<close>, and the wrap-around of \<open>int\<close>.\<close>

definition to_int :: "int \<Rightarrow> int" where
  "to_int v = (v + 2 ^ 31) mod 2 ^ 32 - 2 ^ 31"

definition add32 :: "int \<Rightarrow> int \<Rightarrow> int" where
  "add32 a b = to_int (a + b)"

definition sub32 :: "int \<Rightarrow> int \<Rightarrow> int" where
  "sub32 a b = to_int (a - b)"

definition mul32 :: "int \<Rightarrow> int \<Rightarrow> int" where
  "mul32 a b = to_int (a * b)"

text \<open>
  \<open>strtol(s, &end, 10)\<close> of the C library: white space is skipped, an optional sign is
  read, then the longest run of decimal digits. The result is the value, clamped to the
  range of \<open>long\<close>, and the unread rest of the string. With no digit to read nothing is
  converted: the value is 0 and the rest is the whole string.
\<close>

primrec strtol_digits :: "int \<Rightarrow> string \<Rightarrow> int \<times> string" where
  "strtol_digits acc [] = (acc, [])"
| "strtol_digits acc (c # cs) =
     (if isdigit c then strtol_digits (acc * 10 + digit_value c) cs else (acc, c # cs))"

definition strtol :: "string \<Rightarrow> int \<times> string" where
  "strtol s =
     (let t = dropWhile isspace s;
          negative = (t \<noteq> [] \<and> hd t = CHR ''-'');
          u = (if t \<noteq> [] \<and> (hd t = CHR ''-'' \<or> hd t = CHR ''+'') then tl t else t)
      in if u \<noteq> [] \<and> isdigit (hd u)
         then (let (v, rest) = strtol_digits 0 u
               in (max LONG_MIN (min LONG_MAX (if negative then - v else v)), rest))
         else (0, s))"

section \<open>The five pixel mappers\<close>

text \<open>
  One constructor for each subclass of \<open>PixelMapper\<close>, holding the private fields of the
  class in the order of their declaration: \<open>angle_\<close>; \<open>horizontal_\<close>; \<open>parallel_\<close>;
  \<open>z_\<close>, \<open>chain_\<close>, \<open>parallel_\<close>; \<open>z_\<close>, \<open>swap_lr_\<close>, \<open>chain_\<close>, \<open>parallel_\<close>.
  A virtual method is a function with one equation for each class.
\<close>

datatype PixelMapper =
    RotatePixelMapper (angle: int)
  | MirrorPixelMapper (horizontal: bool)
  | UArrangementMapper (u_parallel: int)
  | VerticalMapper (v_z: bool) (v_chain: int) (v_parallel: int)
  | WindmillPixelMapper (w_z: bool) (w_swap_lr: bool) (w_chain: int) (w_parallel: int)

primrec GetName :: "PixelMapper \<Rightarrow> string" where
  "GetName (RotatePixelMapper a) = ''Rotate''"
| "GetName (MirrorPixelMapper h) = ''Mirror''"
| "GetName (UArrangementMapper p) = ''U-mapper''"
| "GetName (VerticalMapper z c p) = ''V-mapper''"
| "GetName (WindmillPixelMapper z s c p) = ''Windmill''"

text \<open>
  The loop of \<open>WindmillPixelMapper::SetParameters\<close> over the characters of the parameter.
  It returns whether the whole string was accepted, and the two flags as they stand when
  the loop ends or returns early.
\<close>

primrec Windmill_scan :: "string \<Rightarrow> bool \<Rightarrow> bool \<Rightarrow> bool \<times> bool \<times> bool" where
  "Windmill_scan [] z s = (True, z, s)"
| "Windmill_scan (c # cs) z s =
     (if c = CHR '':'' \<or> c = CHR '','' \<or> c = CHR '';'' \<or> c = CHR '' '' then Windmill_scan cs z s
      else if c = CHR ''Z'' \<or> c = CHR ''z'' then Windmill_scan cs True s
      else if c = CHR ''S'' \<or> c = CHR ''s'' then Windmill_scan cs z True
      else (False, z, s))"

text \<open>
  \<open>SetParameters\<close> returns its \<open>bool\<close> and the object as the call leaves it. The parameter
  is a C string or \<open>NULL\<close> (\<open>None\<close>). In the Mirror case the test \<open>strlen(param) != 1\<close> only
  prints a diagnostic and falls through to the \<open>switch\<close> on the first character.
\<close>

primrec SetParameters :: "PixelMapper \<Rightarrow> int \<Rightarrow> int \<Rightarrow> string option \<Rightarrow> bool \<times> PixelMapper" where
  "SetParameters (RotatePixelMapper a) chain parallel param =
     (case param of
        None \<Rightarrow> (True, RotatePixelMapper 0)
      | Some [] \<Rightarrow> (True, RotatePixelMapper 0)
      | Some (c # cs) \<Rightarrow>
          (let (v, errpos) = strtol (c # cs); angle = to_int v
           in if errpos \<noteq> [] then (False, RotatePixelMapper a)
              else if angle smod 90 \<noteq> 0 then (False, RotatePixelMapper a)
              else (True, RotatePixelMapper (to_int (angle + 360) smod 360))))"
| "SetParameters (MirrorPixelMapper h) chain parallel param =
     (case param of
        None \<Rightarrow> (True, MirrorPixelMapper True)
      | Some [] \<Rightarrow> (True, MirrorPixelMapper True)
      | Some (c # cs) \<Rightarrow>
          (if c = CHR ''V'' \<or> c = CHR ''v'' then (True, MirrorPixelMapper False)
           else if c = CHR ''H'' \<or> c = CHR ''h'' then (True, MirrorPixelMapper True)
           else (False, MirrorPixelMapper h)))"
| "SetParameters (UArrangementMapper p) chain parallel param =
     (if chain < 2 then (False, UArrangementMapper p)
      else if chain smod 2 \<noteq> 0 then (False, UArrangementMapper p)
      else (True, UArrangementMapper parallel))"
| "SetParameters (VerticalMapper z c p) chain parallel param =
     (True, VerticalMapper
              (case param of None \<Rightarrow> False | Some s \<Rightarrow> strcasecmp_equal s ''Z'')
              chain parallel)"
| "SetParameters (WindmillPixelMapper z s c p) chain parallel param =
     (if parallel \<noteq> 2 then (False, WindmillPixelMapper z s chain parallel)
      else (case param of
              None \<Rightarrow> (True, WindmillPixelMapper False False chain parallel)
            | Some str \<Rightarrow>
                (let (ok, z', s') = Windmill_scan str False False
                 in (ok, WindmillPixelMapper z' s' chain parallel))))"

text \<open>
  \<open>GetSizeMapping\<close> returns its \<open>bool\<close> with the two values it has written to
  \<open>*visible_width\<close> and \<open>*visible_height\<close>.
\<close>

primrec GetSizeMapping :: "PixelMapper \<Rightarrow> int \<Rightarrow> int \<Rightarrow> fault + (bool \<times> int \<times> int)" where
  "GetSizeMapping (RotatePixelMapper a) matrix_width matrix_height =
     (if a smod 180 = 0 then Inr (True, matrix_width, matrix_height)
      else Inr (True, matrix_height, matrix_width))"
| "GetSizeMapping (MirrorPixelMapper h) matrix_width matrix_height =
     Inr (True, matrix_width, matrix_height)"
| "GetSizeMapping (UArrangementMapper p) matrix_width matrix_height =
     (if p = 0 then Inl DivisionByZero
      else Inr (matrix_height smod p = 0, mul32 (matrix_width sdiv 64) 32,
                mul32 2 matrix_height))"
| "GetSizeMapping (VerticalMapper z c p) matrix_width matrix_height =
     (if c = 0 \<or> p = 0 then Inl DivisionByZero
      else Inr (True, mul32 matrix_width p sdiv c, mul32 matrix_height c sdiv p))"
| "GetSizeMapping (WindmillPixelMapper z s c p) matrix_width matrix_height =
     (if c = 0 \<or> p = 0 then Inl DivisionByZero
      else (let panel_width = matrix_width sdiv c;
                panel_height = matrix_height sdiv p
            in Inr (True, mul32 (mul32 panel_height c) p, panel_width)))"

text \<open>
  \<open>MapVisibleToMatrix\<close> returns the pair written to \<open>*matrix_x\<close> and \<open>*matrix_y\<close>. The
  \<open>switch\<close> of the Rotate mapper has no \<open>default\<close>: for any other angle nothing is
  written, which is the fault \<open>OutputsNotWritten\<close>. For the left half the Windmill mapper
  overwrites the pair it has computed first; the result is the second pair.
\<close>

primrec MapVisibleToMatrix ::
  "PixelMapper \<Rightarrow> int \<Rightarrow> int \<Rightarrow> int \<Rightarrow> int \<Rightarrow> fault + (int \<times> int)" where
  "MapVisibleToMatrix (RotatePixelMapper a) matrix_width matrix_height x y =
     (if a = 0 then Inr (x, y)
      else if a = 90 then Inr (matrix_width - y - 1, x)
      else if a = 180 then Inr (matrix_width - x - 1, matrix_height - y - 1)
      else if a = 270 then Inr (y, matrix_height - x - 1)
      else Inl OutputsNotWritten)"
| "MapVisibleToMatrix (MirrorPixelMapper h) matrix_width matrix_height x y =
     (if h then Inr (matrix_width - 1 - x, y)
      else Inr (x, matrix_height - 1 - y))"
| "MapVisibleToMatrix (UArrangementMapper p) matrix_width matrix_height x y =
     (if p = 0 then Inl DivisionByZero
      else (let panel_height = matrix_height sdiv p;
                visible_width = mul32 (matrix_width sdiv 64) 32;
                slab_height = mul32 2 panel_height
            in if slab_height = 0 then Inl DivisionByZero
               else (let base_y = mul32 (y sdiv slab_height) panel_height;
                         y1 = y smod slab_height
                     in if y1 < panel_height
                        then Inr (add32 x (matrix_width sdiv 2), add32 base_y y1)
                        else Inr (sub32 (sub32 visible_width x) 1,
                                  add32 base_y (sub32 (sub32 slab_height y1) 1)))))"
| "MapVisibleToMatrix (VerticalMapper z c p) matrix_width matrix_height x y =
     (if c = 0 \<or> p = 0 then Inl DivisionByZero
      else (let panel_width = matrix_width sdiv c;
                panel_height = matrix_height sdiv p
            in if panel_width = 0 \<or> panel_height = 0 then Inl DivisionByZero
               else (let is_height_even_panels = ((matrix_width sdiv panel_width) smod 2 \<noteq> 0);
                         x_panel_start = mul32 (y sdiv panel_height) panel_width;
                         y_panel_start = mul32 (x sdiv panel_width) panel_height;
                         x_within_panel = x smod panel_width;
                         y_within_panel = y smod panel_height;
                         needs_flipping =
                           (z \<and> (if is_height_even_panels then 1 else 0)
                                   - ((y sdiv panel_height) smod 2) = 0)
                     in Inr (add32 x_panel_start
                               (if needs_flipping
                                then sub32 (sub32 panel_width 1) x_within_panel
                                else x_within_panel),
                             add32 y_panel_start
                               (if needs_flipping
                                then sub32 (sub32 panel_height 1) y_within_panel
                                else y_within_panel)))))"
| "MapVisibleToMatrix (WindmillPixelMapper z s c p) matrix_width matrix_height x y =
     (if c = 0 \<or> p = 0 then Inl DivisionByZero
      else (let panel_width = matrix_width sdiv c;
                panel_height = matrix_height sdiv p
            in if panel_height = 0 then Inl DivisionByZero
               else (let panel_index_along_width = x sdiv panel_height;
                         rx = x smod panel_height;
                         ry = y;
                         half = c;
                         is_left_half = (panel_index_along_width < half);
                         idx_in_half = (if is_left_half
                                        then sub32 (sub32 half 1) panel_index_along_width
                                        else sub32 panel_index_along_width half);
                         p_left = (if s then 1 else 0);
                         p_right = (if s then 0 else 1);
                         p1 = (if is_left_half then p_left else p_right);
                         cpos = (if is_left_half then panel_index_along_width
                                 else sub32 (sub32 c 1) idx_in_half);
                         ux = ry;
                         uy = sub32 (sub32 panel_height 1) rx;
                         uy1 = (if is_left_half then sub32 (sub32 panel_height 1) uy else uy);
                         flip = (z \<and> cpos smod 2 = 1);
                         ux2 = (if flip then sub32 (sub32 panel_width 1) ux else ux);
                         uy2 = (if flip then sub32 (sub32 panel_height 1) uy1 else uy1)
                     in if is_left_half
                        then Inr (sub32 (sub32 (mul32 (add32 cpos 1) panel_width) 1) ux2,
                                  sub32 (sub32 (mul32 (add32 p1 1) panel_height) 1) uy2)
                        else Inr (add32 (mul32 cpos panel_width) ux2,
                                  add32 (mul32 p1 panel_height) uy2))))"

section \<open>The registry\<close>

text \<open>
  \<open>MapperByName\<close> is the \<open>std::map\<close> from the lower-cased name to the mapper. The registry
  owns its mappers and each is stored under the one key of its name, so the map holds
  the objects themselves; a call that changes a registered mapper returns the map with
  the changed object. \<open>assert(mapper != NULL)\<close> aborts the program on a null pointer:
  the result \<open>None\<close>.
\<close>

type_synonym MapperByName = "string \<rightharpoonup> PixelMapper"

definition RegisterPixelMapperInternal ::
  "MapperByName \<Rightarrow> PixelMapper option \<Rightarrow> MapperByName option" where
  "RegisterPixelMapperInternal registry mapper =
     (case mapper of
        None \<Rightarrow> None
      | Some m \<Rightarrow> (let lower_name = map tolower (GetName m)
                   in Some (registry(lower_name \<mapsto> m))))"

text \<open>
  The constructor of \<open>VerticalMapper\<close> initialises none of its fields; their indeterminate
  contents are the parameters \<open>z0\<close>, \<open>c0\<close> and \<open>p0\<close>.
\<close>

definition CreateMapperMap :: "bool \<Rightarrow> int \<Rightarrow> int \<Rightarrow> MapperByName option" where
  "CreateMapperMap z0 c0 p0 =
     Option.bind (RegisterPixelMapperInternal Map.empty (Some (RotatePixelMapper 0))) (\<lambda>r1.
     Option.bind (RegisterPixelMapperInternal r1 (Some (UArrangementMapper 1))) (\<lambda>r2.
     Option.bind (RegisterPixelMapperInternal r2 (Some (VerticalMapper z0 c0 p0))) (\<lambda>r3.
     Option.bind (RegisterPixelMapperInternal r3 (Some (WindmillPixelMapper False False 1 1))) (\<lambda>r4.
     RegisterPixelMapperInternal r4 (Some (MirrorPixelMapper True))))))"


definition FindPixelMapper ::
  "MapperByName \<Rightarrow> string \<Rightarrow> int \<Rightarrow> int \<Rightarrow> string option \<Rightarrow> PixelMapper option \<times> MapperByName" where
  "FindPixelMapper registry name chain parallel parameter =
     (let lower_name = map tolower name
      in case registry lower_name of
           None \<Rightarrow> (None, registry)
         | Some mapper \<Rightarrow>
             (let (ok, mapper') = SetParameters mapper chain parallel parameter
              in (if ok then Some mapper' else None, registry(lower_name \<mapsto> mapper'))))"

section \<open>Notions used in the statements and proofs\<close>

text \<open>
  A coordinate lies in a canvas of width \<open>w\<close> and height \<open>h\<close> when it is in
  \<open>[0, w) \<times> [0, h)\<close>.
\<close>

definition in_canvas :: "int \<Rightarrow> int \<Rightarrow> int \<Rightarrow> int \<Rightarrow> bool" where
  "in_canvas w h x y \<longleftrightarrow> 0 \<le> x \<and> x < w \<and> 0 \<le> y \<and> y < h"

text \<open>The characters that the loop of the Windmill mapper does not reject.\<close>

definition Windmill_char :: "char \<Rightarrow> bool" where
  "Windmill_char c \<longleftrightarrow> c = CHR ''Z'' \<or> c = CHR ''z'' \<or> c = CHR ''S'' \<or> c = CHR ''s''
      \<or> c = CHR '':'' \<or> c = CHR '','' \<or> c = CHR '';'' \<or> c = CHR '' ''"

text \<open>
  The mappers place a pixel in a panel and may turn the panel by 180 degrees, which
  reflects both offsets inside it. The remaining definitions name the panel position,
  the channel and the flip conditions that the source computes in local variables.
\<close>

definition reflect :: "bool \<Rightarrow> int \<Rightarrow> int \<Rightarrow> int" where
  "reflect b n r = (if b then n - 1 - r else r)"

definition Vertical_flip :: "bool \<Rightarrow> int \<Rightarrow> int \<Rightarrow> int \<Rightarrow> bool" where
  "Vertical_flip z W pw k = (z \<and> (if (W sdiv pw) smod 2 \<noteq> 0 then 1 else 0) - (k smod 2) = (0::int))"

definition Windmill_cpos :: "int \<Rightarrow> int \<Rightarrow> int" where
  "Windmill_cpos c idx = (if idx < c then idx else c - 1 - (idx - c))"

definition Windmill_channel :: "bool \<Rightarrow> bool \<Rightarrow> int" where
  "Windmill_channel s left = (if left then (if s then 1 else 0) else (if s then 0 else 1))"

definition Windmill_flip :: "bool \<Rightarrow> int \<Rightarrow> bool" where
  "Windmill_flip z cpos = (z \<and> cpos smod 2 = 1)"

section \<open>Auxiliary facts\<close>

lemma sdiv_nonneg: "0 \<le> a \<Longrightarrow> 0 < b \<Longrightarrow> a sdiv b = a div (b::int)"
  by (simp add: signed_divide_int_def sgn_if)

lemma smod_nonneg: "0 \<le> a \<Longrightarrow> 0 < b \<Longrightarrow> a smod b = a mod (b::int)"
  by (simp add: signed_modulo_int_def sgn_if)

lemma smod_eq_0_iff: "(a::int) smod b = 0 \<longleftrightarrow> b dvd a"
proof (cases "b = 0")
  case True
  then show ?thesis by simp
next
  case False
  have "a smod b = 0 \<longleftrightarrow> \<bar>a\<bar> mod \<bar>b\<bar> = 0"
    by (cases "a = 0") (simp_all add: signed_modulo_int_def sgn_if)
  also have "\<dots> \<longleftrightarrow> \<bar>b\<bar> dvd \<bar>a\<bar>"
    by (simp add: dvd_eq_mod_eq_0)
  finally show ?thesis by simp
qed

lemma tolower_eq_z: "tolower c = CHR ''z'' \<longleftrightarrow> c = CHR ''Z'' \<or> c = CHR ''z''"
  by (cases c) (auto simp: tolower_def char_of_def bit_iff_odd Let_def)

lemma strcasecmp_equal_Z: "strcasecmp_equal s ''Z'' \<longleftrightarrow> s = ''Z'' \<or> s = ''z''"
proof -
  have Z: "map tolower ''Z'' = ''z''"
    by (simp add: tolower_def char_of_def bit_iff_odd)
  show ?thesis
    unfolding strcasecmp_equal_def Z by (auto simp: map_eq_Cons_conv tolower_eq_z)
qed

lemma Windmill_scan_accepts:
  "fst (Windmill_scan str z s) \<longleftrightarrow> (\<forall>c \<in> set str. Windmill_char c)"
proof (induction str arbitrary: z s)
  case Nil
  show ?case by simp
next
  case (Cons c cs)
  show ?case
  proof (cases "Windmill_char c")
    case True
    then show ?thesis
      using Cons.IH unfolding Windmill_char_def by (auto simp del: insert_iff)
  next
    case False
    then show ?thesis
      unfolding Windmill_char_def by simp
  qed
qed

lemma lower_names:
  "map tolower ''rotate'' = ''rotate''" "map tolower ''ROTATE'' = ''rotate''"
  "map tolower ''RoTaTe'' = ''rotate''" "map tolower ''Rotate'' = ''rotate''"
  "map tolower ''MIRROR'' = ''mirror''" "map tolower ''doesnotexist'' = ''doesnotexist''"
  by (simp_all add: tolower_def char_of_def bit_iff_odd)

lemma FindPixelMapper_hit:
  assumes "registry (map tolower name) = Some m"
  shows "FindPixelMapper registry name chain parallel param =
     (if fst (SetParameters m chain parallel param)
      then Some (snd (SetParameters m chain parallel param)) else None,
      registry(map tolower name \<mapsto> snd (SetParameters m chain parallel param)))"
  using assms by (simp add: FindPixelMapper_def Let_def split_beta)

lemma FindPixelMapper_miss:
  assumes "registry (map tolower name) = None"
  shows "FindPixelMapper registry name chain parallel param = (None, registry)"
  using assms by (simp add: FindPixelMapper_def Let_def)

lemma CreateMapperMap_eq:
  "CreateMapperMap z0 c0 p0 =
     Some [''rotate'' \<mapsto> RotatePixelMapper 0, ''u-mapper'' \<mapsto> UArrangementMapper 1,
           ''v-mapper'' \<mapsto> VerticalMapper z0 c0 p0,
           ''windmill'' \<mapsto> WindmillPixelMapper False False 1 1,
           ''mirror'' \<mapsto> MirrorPixelMapper True]"
  by (simp add: CreateMapperMap_def RegisterPixelMapperInternal_def tolower_def char_of_def
        bit_iff_odd)

lemma block_unique:
  fixes n :: int
  assumes "0 \<le> r" "r < n" "0 \<le> r'" "r' < n" "a * n + r = a' * n + r'"
  shows "a = a' \<and> r = r'"
proof -
  have n: "n \<noteq> 0" using assms by simp
  have "(a * n + r) div n = a" "(a' * n + r') div n = a'"
    using assms(1-4) n by (simp_all add: div_pos_pos_trivial)
  then have "a = a'" using assms(5) by simp
  then show ?thesis using assms(5) by simp
qed

lemma block_bound:
  fixes n :: int
  assumes "0 \<le> a" "a < k" "0 \<le> r" "r < n"
  shows "0 \<le> a * n + r \<and> a * n + r < k * n"
proof -
  have "0 < n" using assms by simp
  have "a + 1 \<le> k" using assms by simp
  then have "(a + 1) * n \<le> k * n" using \<open>0 < n\<close> by (simp add: mult_right_mono)
  moreover have "0 \<le> a * n" using assms \<open>0 < n\<close> by simp
  ultimately show ?thesis using assms by (simp add: algebra_simps)
qed

lemma div_block:
  fixes n :: int
  assumes "0 < n" "0 \<le> x" "x < k * n"
  shows "0 \<le> x div n \<and> x div n < k"
proof -
  have "x div n * n + x mod n = x" by simp
  moreover have "0 \<le> x mod n" using assms(1) by simp
  ultimately have "x div n * n \<le> x" by linarith
  then have "x div n * n < k * n" using assms(3) by simp
  then have "x div n < k" using assms(1) by (simp add: mult_less_cancel_right)
  then show ?thesis using assms by (simp add: pos_imp_zdiv_nonneg_iff)
qed

lemma reflect_range: "0 \<le> r \<Longrightarrow> r < n \<Longrightarrow> 0 \<le> reflect b n r \<and> reflect b n r < n"
  by (simp add: reflect_def)

lemma reflect_inj: "reflect b n r = reflect b n r' \<Longrightarrow> r = r'"
  by (simp add: reflect_def split: if_splits)

lemma to_int_id: "- (2 ^ 31) \<le> v \<Longrightarrow> v < 2 ^ 31 \<Longrightarrow> to_int v = v"
  by (simp add: to_int_def)

lemma add32_id: "- (2 ^ 31) \<le> a + b \<Longrightarrow> a + b < 2 ^ 31 \<Longrightarrow> add32 a b = a + b"
  unfolding add32_def by (rule to_int_id)

lemma sub32_id: "- (2 ^ 31) \<le> a - b \<Longrightarrow> a - b < 2 ^ 31 \<Longrightarrow> sub32 a b = a - b"
  unfolding sub32_def by (rule to_int_id)

lemma mul32_id: "- (2 ^ 31) \<le> a * b \<Longrightarrow> a * b < 2 ^ 31 \<Longrightarrow> mul32 a b = a * b"
  unfolding mul32_def by (rule to_int_id)

text \<open>A pixel at offset \<open>r\<close> of block \<open>a\<close>, reflected or not, computed with wrap-around.\<close>

lemma block_offset_exact:
  assumes a: "0 \<le> a" and n: "a * n + n \<le> 2 ^ 31" and r: "0 \<le> r" "r < n"
  shows "add32 (mul32 a n) (if b then sub32 (sub32 n 1) r else r) = a * n + reflect b n r"
proof -
  have n0: "0 < n" using r by simp
  have an: "0 \<le> a * n" using a n0 by simp
  have m: "mul32 a n = a * n" using an n n0 by (intro mul32_id) simp_all
  have s1: "sub32 n 1 = n - 1" using an n n0 by (intro sub32_id) simp_all
  have s2: "sub32 (n - 1) r = n - 1 - r" using an n r by (intro sub32_id) simp_all
  have a1: "add32 (a * n) (n - 1 - r) = a * n + (n - 1 - r)"
    using an n r by (intro add32_id) simp_all
  have a2: "add32 (a * n) r = a * n + r"
    using an n r by (intro add32_id) simp_all
  show ?thesis by (simp add: m s1 s2 a1 a2 reflect_def)
qed

lemma Vertical_normal_form:
  assumes "c \<noteq> 0" "p \<noteq> 0" "0 < W sdiv c" "0 < H sdiv p" "0 \<le> x" "0 \<le> y"
    and ox: "(y div (H sdiv p)) * (W sdiv c) + (W sdiv c) \<le> 2 ^ 31"
    and oy: "(x div (W sdiv c)) * (H sdiv p) + (H sdiv p) \<le> 2 ^ 31"
  shows "MapVisibleToMatrix (VerticalMapper z c p) W H x y =
     Inr ((y div (H sdiv p)) * (W sdiv c)
            + reflect (Vertical_flip z W (W sdiv c) (y div (H sdiv p))) (W sdiv c) (x mod (W sdiv c)),
          (x div (W sdiv c)) * (H sdiv p)
            + reflect (Vertical_flip z W (W sdiv c) (y div (H sdiv p))) (H sdiv p) (y mod (H sdiv p)))"
proof -
  define pw where "pw = W sdiv c"
  define ph where "ph = H sdiv p"
  define f where "f = Vertical_flip z W pw (y div ph)"
  have pw: "0 < pw" and ph: "0 < ph" using assms by (simp_all add: pw_def ph_def)
  have k: "0 \<le> y div ph" and j: "0 \<le> x div pw"
    using assms pw ph by (simp_all add: pos_imp_zdiv_nonneg_iff)
  have ex: "add32 (mul32 (y div ph) pw) (if f then sub32 (sub32 pw 1) (x mod pw) else x mod pw)
      = (y div ph) * pw + reflect f pw (x mod pw)"
    using k ox pw by (intro block_offset_exact) (simp_all add: pw_def ph_def)
  have ey: "add32 (mul32 (x div pw) ph) (if f then sub32 (sub32 ph 1) (y mod ph) else y mod ph)
      = (x div pw) * ph + reflect f ph (y mod ph)"
    using j oy ph by (intro block_offset_exact) (simp_all add: pw_def ph_def)
  have "MapVisibleToMatrix (VerticalMapper z c p) W H x y =
     Inr (add32 (mul32 (y div ph) pw) (if f then sub32 (sub32 pw 1) (x mod pw) else x mod pw),
          add32 (mul32 (x div pw) ph) (if f then sub32 (sub32 ph 1) (y mod ph) else y mod ph))"
    using assms(1,2,5,6) pw ph
    by (simp add: Let_def sdiv_nonneg smod_nonneg f_def Vertical_flip_def pw_def [symmetric]
          ph_def [symmetric])
  then show ?thesis
    unfolding ex ey by (simp add: f_def pw_def ph_def)
qed

lemma sdiv_mult_self: "c \<noteq> 0 \<Longrightarrow> (c * k) sdiv c = (k::int)"
  by (simp add: signed_divide_int_eq_divide_int)

lemma exact_panels:
  fixes c W p :: int
  assumes "1 \<le> c" "1 \<le> p" "c dvd W" "0 < (W * p) sdiv c"
  shows "0 < W sdiv c \<and> (W * p) sdiv c = (W sdiv c) * p \<and> (W sdiv c) * c = W"
proof -
  from assms(3) obtain k where W: "W = c * k" by (rule dvdE)
  have c: "c \<noteq> 0" using assms(1) by simp
  have q: "W sdiv c = k" unfolding W using c by (rule sdiv_mult_self)
  have "(W * p) sdiv c = (c * (k * p)) sdiv c" unfolding W by (simp only: mult.assoc)
  also have "\<dots> = k * p" using c by (rule sdiv_mult_self)
  finally have v: "(W * p) sdiv c = k * p" .
  then have "0 < k * p" using assms(4) by simp
  then have "0 < k" using assms(2) by (simp add: zero_less_mult_iff)
  then show ?thesis using q v W by simp
qed

lemma div_mod_unique:
  fixes n :: int
  assumes "x div n = x' div n" "x mod n = x' mod n"
  shows "x = x'"
proof -
  have "x = x div n * n + x mod n" by simp
  also have "\<dots> = x' div n * n + x' mod n" by (simp only: assms)
  also have "\<dots> = x'" by simp
  finally show ?thesis .
qed

lemma Vertical_visible:
  assumes c: "1 \<le> c" and p: "1 \<le> p" and cW: "c dvd W" and pH: "p dvd H"
    and W0: "0 \<le> W" and H0: "0 \<le> H"
    and oW: "W * p < 2 ^ 31" and oH: "H * c < 2 ^ 31"
    and vis: "in_canvas (mul32 W p sdiv c) (mul32 H c sdiv p) x y"
  shows "0 < W sdiv c \<and> 0 < H sdiv p \<and> (W sdiv c) * c = W \<and> (H sdiv p) * p = H
    \<and> 0 \<le> x div (W sdiv c) \<and> x div (W sdiv c) < p
    \<and> 0 \<le> y div (H sdiv p) \<and> y div (H sdiv p) < c
    \<and> MapVisibleToMatrix (VerticalMapper z c p) W H x y =
        Inr ((y div (H sdiv p)) * (W sdiv c)
               + reflect (Vertical_flip z W (W sdiv c) (y div (H sdiv p))) (W sdiv c)
                   (x mod (W sdiv c)),
             (x div (W sdiv c)) * (H sdiv p)
               + reflect (Vertical_flip z W (W sdiv c) (y div (H sdiv p))) (H sdiv p)
                   (y mod (H sdiv p)))"
proof -
  define pw where "pw = W sdiv c"
  define ph where "ph = H sdiv p"
  have "0 \<le> W * p" "0 \<le> H * c" using W0 H0 c p by simp_all
  then have mW: "mul32 W p = W * p" and mH: "mul32 H c = H * c"
    using oW oH by (simp_all add: mul32_id)
  have x: "0 \<le> x" "x < (W * p) sdiv c" and y: "0 \<le> y" "y < (H * c) sdiv p"
    using vis unfolding mW mH by (simp_all add: in_canvas_def)
  have gw: "0 < pw \<and> (W * p) sdiv c = pw * p \<and> pw * c = W"
    unfolding pw_def using c p cW x by (intro exact_panels) simp_all
  have gh: "0 < ph \<and> (H * c) sdiv p = ph * c \<and> ph * p = H"
    unfolding ph_def using c p pH y by (intro exact_panels) simp_all
  have row: "0 \<le> y div ph \<and> y div ph < c"
    using gh y by (intro div_block) (simp_all add: mult.commute)
  have col: "0 \<le> x div pw \<and> x div pw < p"
    using gw x by (intro div_block) (simp_all add: mult.commute)
  have "(y div ph + 1) * pw \<le> c * pw"
    using row gw by (intro mult_right_mono) simp_all
  moreover have "c * pw \<le> W * p"
    using gw p W0 by (simp add: mult.commute mult_le_cancel_left1)
  ultimately have ox: "(y div ph) * pw + pw \<le> 2 ^ 31"
    using oW by (simp add: algebra_simps)
  have "(x div pw + 1) * ph \<le> p * ph"
    using col gh by (intro mult_right_mono) simp_all
  moreover have "p * ph \<le> H * c"
    using gh c H0 by (simp add: mult.commute mult_le_cancel_left1)
  ultimately have oy: "(x div pw) * ph + ph \<le> 2 ^ 31"
    using oH by (simp add: algebra_simps)
  have nf: "MapVisibleToMatrix (VerticalMapper z c p) W H x y =
      Inr ((y div ph) * pw + reflect (Vertical_flip z W pw (y div ph)) pw (x mod pw),
           (x div pw) * ph + reflect (Vertical_flip z W pw (y div ph)) ph (y mod ph))"
    unfolding pw_def ph_def
    using c p gw gh x(1) y(1) ox oy
    by (intro Vertical_normal_form) (simp_all add: pw_def ph_def)
  show ?thesis
    using gw gh row col nf unfolding pw_def ph_def by simp
qed

lemma Vertical_bounds:
  assumes c: "1 \<le> c" and p: "1 \<le> p" and cW: "c dvd W" and pH: "p dvd H"
    and W0: "0 \<le> W" and H0: "0 \<le> H"
    and oW: "W * p < 2 ^ 31" and oH: "H * c < 2 ^ 31"
    and vis: "in_canvas (mul32 W p sdiv c) (mul32 H c sdiv p) x y"
  shows "\<exists>mx my. MapVisibleToMatrix (VerticalMapper z c p) W H x y = Inr (mx, my)
           \<and> in_canvas W H mx my"
proof -
  define pw where "pw = W sdiv c"
  define ph where "ph = H sdiv p"
  define f where "f = Vertical_flip z W pw (y div ph)"
  have g: "0 < pw \<and> 0 < ph \<and> pw * c = W \<and> ph * p = H
    \<and> 0 \<le> x div pw \<and> x div pw < p \<and> 0 \<le> y div ph \<and> y div ph < c
    \<and> MapVisibleToMatrix (VerticalMapper z c p) W H x y =
        Inr ((y div ph) * pw + reflect f pw (x mod pw), (x div pw) * ph + reflect f ph (y mod ph))"
    unfolding f_def pw_def ph_def using assms by (rule Vertical_visible)
  have rx: "0 \<le> reflect f pw (x mod pw) \<and> reflect f pw (x mod pw) < pw"
    using g by (intro reflect_range) simp_all
  have ry: "0 \<le> reflect f ph (y mod ph) \<and> reflect f ph (y mod ph) < ph"
    using g by (intro reflect_range) simp_all
  have "0 \<le> (y div ph) * pw + reflect f pw (x mod pw)
      \<and> (y div ph) * pw + reflect f pw (x mod pw) < c * pw"
    using g rx by (intro block_bound) simp_all
  moreover have "0 \<le> (x div pw) * ph + reflect f ph (y mod ph)
      \<and> (x div pw) * ph + reflect f ph (y mod ph) < p * ph"
    using g ry by (intro block_bound) simp_all
  ultimately have "in_canvas W H ((y div ph) * pw + reflect f pw (x mod pw))
      ((x div pw) * ph + reflect f ph (y mod ph))"
    using g by (simp add: in_canvas_def mult.commute)
  with g show ?thesis by blast
qed

lemma Vertical_injective:
  assumes c: "1 \<le> c" and p: "1 \<le> p" and cW: "c dvd W" and pH: "p dvd H"
    and W0: "0 \<le> W" and H0: "0 \<le> H"
    and oW: "W * p < 2 ^ 31" and oH: "H * c < 2 ^ 31"
    and vis: "in_canvas (mul32 W p sdiv c) (mul32 H c sdiv p) x y"
    and vis': "in_canvas (mul32 W p sdiv c) (mul32 H c sdiv p) x' y'"
    and eq: "MapVisibleToMatrix (VerticalMapper z c p) W H x y
           = MapVisibleToMatrix (VerticalMapper z c p) W H x' y'"
  shows "x = x' \<and> y = y'"
proof -
  define pw where "pw = W sdiv c"
  define ph where "ph = H sdiv p"
  define f where "f = Vertical_flip z W pw (y div ph)"
  define f' where "f' = Vertical_flip z W pw (y' div ph)"
  have g: "0 < pw \<and> 0 < ph \<and> pw * c = W \<and> ph * p = H
    \<and> 0 \<le> x div pw \<and> x div pw < p \<and> 0 \<le> y div ph \<and> y div ph < c
    \<and> MapVisibleToMatrix (VerticalMapper z c p) W H x y =
        Inr ((y div ph) * pw + reflect f pw (x mod pw), (x div pw) * ph + reflect f ph (y mod ph))"
    unfolding f_def pw_def ph_def using c p cW pH W0 H0 oW oH vis by (rule Vertical_visible)
  have g': "0 < pw \<and> 0 < ph \<and> pw * c = W \<and> ph * p = H
    \<and> 0 \<le> x' div pw \<and> x' div pw < p \<and> 0 \<le> y' div ph \<and> y' div ph < c
    \<and> MapVisibleToMatrix (VerticalMapper z c p) W H x' y' =
        Inr ((y' div ph) * pw + reflect f' pw (x' mod pw), (x' div pw) * ph + reflect f' ph (y' mod ph))"
    unfolding f'_def pw_def ph_def using c p cW pH W0 H0 oW oH vis' by (rule Vertical_visible)
  have nf: "MapVisibleToMatrix (VerticalMapper z c p) W H x y =
        Inr ((y div ph) * pw + reflect f pw (x mod pw), (x div pw) * ph + reflect f ph (y mod ph))"
    using g by blast
  have nf': "MapVisibleToMatrix (VerticalMapper z c p) W H x' y' =
        Inr ((y' div ph) * pw + reflect f' pw (x' mod pw), (x' div pw) * ph + reflect f' ph (y' mod ph))"
    using g' by blast
  have e1: "(y div ph) * pw + reflect f pw (x mod pw) = (y' div ph) * pw + reflect f' pw (x' mod pw)"
    and e2: "(x div pw) * ph + reflect f ph (y mod ph) = (x' div pw) * ph + reflect f' ph (y' mod ph)"
    using eq unfolding nf nf' by simp_all
  have r1: "0 \<le> reflect f pw (x mod pw) \<and> reflect f pw (x mod pw) < pw"
    using g by (intro reflect_range) simp_all
  have r1': "0 \<le> reflect f' pw (x' mod pw) \<and> reflect f' pw (x' mod pw) < pw"
    using g by (intro reflect_range) simp_all
  have r2: "0 \<le> reflect f ph (y mod ph) \<and> reflect f ph (y mod ph) < ph"
    using g by (intro reflect_range) simp_all
  have r2': "0 \<le> reflect f' ph (y' mod ph) \<and> reflect f' ph (y' mod ph) < ph"
    using g by (intro reflect_range) simp_all
  have u1: "y div ph = y' div ph \<and> reflect f pw (x mod pw) = reflect f' pw (x' mod pw)"
    using r1 r1' e1 by (intro block_unique) simp_all
  have u2: "x div pw = x' div pw \<and> reflect f ph (y mod ph) = reflect f' ph (y' mod ph)"
    using r2 r2' e2 by (intro block_unique) simp_all
  have ff: "f' = f" unfolding f_def f'_def using u1 by simp
  have "reflect f pw (x mod pw) = reflect f pw (x' mod pw)" using u1 unfolding ff by simp
  then have mx: "x mod pw = x' mod pw" by (rule reflect_inj)
  have "reflect f ph (y mod ph) = reflect f ph (y' mod ph)" using u2 unfolding ff by simp
  then have my: "y mod ph = y' mod ph" by (rule reflect_inj)
  have "x div pw = x' div pw" using u2 by simp
  then have "x = x'" using mx by (rule div_mod_unique)
  moreover have "y div ph = y' div ph" using u1 by simp
  then have "y = y'" using my by (rule div_mod_unique)
  ultimately show ?thesis by simp
qed

lemma sub32_mirror:
  assumes "0 \<le> r" "r < n" "n \<le> 2 ^ 31"
  shows "sub32 (sub32 n 1) r = n - 1 - r"
proof -
  have "sub32 n 1 = n - 1" using assms by (intro sub32_id) simp_all
  moreover have "sub32 (n - 1) r = n - 1 - r" using assms by (intro sub32_id) simp_all
  ultimately show ?thesis by simp
qed

lemma block_end_exact:
  assumes a: "0 \<le> a" and n: "a * n + n < 2 ^ 31" and r: "0 \<le> r" "r < n"
  shows "sub32 (sub32 (mul32 (add32 a 1) n) 1) r = a * n + (n - 1 - r)"
proof -
  have n0: "0 < n" using r by simp
  have an: "0 \<le> a * n" using a n0 by simp
  have e: "(a + 1) * n = a * n + n" by (simp add: algebra_simps)
  have "a + 1 < 2 ^ 31"
  proof (rule ccontr)
    assume "\<not> a + 1 < 2 ^ 31"
    then have "2 ^ 31 * 1 \<le> (a + 1) * n" using n0 by (intro mult_mono) simp_all
    then show False using n unfolding e by simp
  qed
  then have s: "add32 a 1 = a + 1" using a by (intro add32_id) simp_all
  have m: "mul32 (a + 1) n = a * n + n" unfolding e [symmetric]
    using an n n0 by (intro mul32_id) (simp_all add: e)
  have s1: "sub32 (a * n + n) 1 = a * n + n - 1" using an n n0 by (intro sub32_id) simp_all
  have s2: "sub32 (a * n + n - 1) r = a * n + n - 1 - r" using an n r by (intro sub32_id) simp_all
  show ?thesis by (simp add: s m s1 s2)
qed

lemma block_start_exact:
  assumes a: "0 \<le> a" and n: "a * n + n < 2 ^ 31" and r: "0 \<le> r" "r < n"
  shows "add32 (mul32 a n) r = a * n + r"
proof -
  have n0: "0 < n" using r by simp
  have an: "0 \<le> a * n" using a n0 by simp
  have m: "mul32 a n = a * n" using an n n0 by (intro mul32_id) simp_all
  have "add32 (a * n) r = a * n + r" using an n r by (intro add32_id) simp_all
  then show ?thesis by (simp add: m)
qed

lemma Windmill_core:
  assumes c: "0 < c" and pw: "0 < pw" and ph: "0 < ph"
    and idx: "0 \<le> idx" "idx < 2 * c" and rx: "0 \<le> rx" "rx < ph"
    and y: "0 \<le> y" "y < pw"
    and oW: "c * pw < 2 ^ 31" and oH: "2 * ph < 2 ^ 31"
  shows "(let panel_index_along_width = idx;
              ry = y;
              half = c;
              is_left_half = (panel_index_along_width < half);
              idx_in_half = (if is_left_half
                             then sub32 (sub32 half 1) panel_index_along_width
                             else sub32 panel_index_along_width half);
              p_left = (if s then 1 else 0);
              p_right = (if s then 0 else 1);
              p1 = (if is_left_half then p_left else p_right);
              cpos = (if is_left_half then panel_index_along_width
                      else sub32 (sub32 c 1) idx_in_half);
              ux = ry;
              uy = sub32 (sub32 ph 1) rx;
              uy1 = (if is_left_half then sub32 (sub32 ph 1) uy else uy);
              flip = (z \<and> cpos smod 2 = 1);
              ux2 = (if flip then sub32 (sub32 pw 1) ux else ux);
              uy2 = (if flip then sub32 (sub32 ph 1) uy1 else uy1)
          in if is_left_half
             then Inr (sub32 (sub32 (mul32 (add32 cpos 1) pw) 1) ux2,
                       sub32 (sub32 (mul32 (add32 p1 1) ph) 1) uy2)
             else Inr (add32 (mul32 cpos pw) ux2, add32 (mul32 p1 ph) uy2))
     = (Inr (Windmill_cpos c idx * pw
               + reflect ((idx < c) \<noteq> Windmill_flip z (Windmill_cpos c idx)) pw y,
             Windmill_channel s (idx < c) * ph
               + reflect (\<not> Windmill_flip z (Windmill_cpos c idx)) ph rx) :: fault + int \<times> int)"
proof -
  have cb: "c \<le> 2 ^ 31"
  proof (rule ccontr)
    assume "\<not> c \<le> 2 ^ 31"
    then have "2 ^ 31 * 1 \<le> c * pw" using pw by (intro mult_mono) simp_all
    then show False using oW by simp
  qed
  have pwb: "pw \<le> 2 ^ 31"
  proof (rule ccontr)
    assume "\<not> pw \<le> 2 ^ 31"
    then have "1 * 2 ^ 31 \<le> c * pw" using c by (intro mult_mono) simp_all
    then show False using oW by simp
  qed
  have phb: "ph \<le> 2 ^ 31" using oH ph by simp
  have och: "0 * ph + ph < 2 ^ 31" "1 * ph + ph < 2 ^ 31" using oH ph by simp_all
  show ?thesis
  proof (cases "idx < c")
    case True
    have "(idx + 1) * pw \<le> c * pw" using True pw by (intro mult_right_mono) simp_all
    then have ocp: "idx * pw + pw < 2 ^ 31" using oW by (simp add: algebra_simps)
    have m: "sub32 (sub32 ph 1) (ph - 1 - rx) = rx"
      using rx phb by (simp add: sub32_mirror)
    show ?thesis
      using True idx rx y pw ph cb pwb phb ocp och
      by (simp add: Let_def sub32_mirror m block_end_exact Windmill_cpos_def Windmill_flip_def
            Windmill_channel_def reflect_def)
  next
    case False
    define cpos where "cpos = c - 1 - (idx - c)"
    have cp: "0 \<le> cpos" "cpos < c" using False idx by (simp_all add: cpos_def)
    have "(cpos + 1) * pw \<le> c * pw" using cp pw by (intro mult_right_mono) simp_all
    then have ocp: "cpos * pw + pw < 2 ^ 31" using oW by (simp add: algebra_simps)
    have i1: "sub32 idx c = idx - c" using False idx cb by (intro sub32_id) simp_all
    have i2: "sub32 (sub32 c 1) (idx - c) = cpos"
      unfolding cpos_def using False idx cb by (intro sub32_mirror) simp_all
    have m: "sub32 (sub32 ph 1) (ph - 1 - rx) = rx"
      using rx phb by (simp add: sub32_mirror)
    have w: "Windmill_cpos c idx = cpos" using False by (simp add: Windmill_cpos_def cpos_def)
    show ?thesis
      unfolding w using False cp rx y pw ph pwb phb ocp och
      by (simp add: Let_def i1 i2 sub32_mirror m block_start_exact Windmill_flip_def
            Windmill_channel_def reflect_def)
  qed
qed

lemma Windmill_normal_form:
  assumes c: "0 < c" and pw: "0 < W sdiv c" and ph: "0 < H sdiv 2"
    and x: "0 \<le> x" "x div (H sdiv 2) < 2 * c" and y: "0 \<le> y" "y < W sdiv c"
    and oW: "c * (W sdiv c) < 2 ^ 31" and oH: "2 * (H sdiv 2) < 2 ^ 31"
  shows "MapVisibleToMatrix (WindmillPixelMapper z s c 2) W H x y =
     Inr (Windmill_cpos c (x div (H sdiv 2)) * (W sdiv c)
            + reflect ((x div (H sdiv 2) < c) \<noteq> Windmill_flip z (Windmill_cpos c (x div (H sdiv 2))))
                (W sdiv c) y,
          Windmill_channel s (x div (H sdiv 2) < c) * (H sdiv 2)
            + reflect (\<not> Windmill_flip z (Windmill_cpos c (x div (H sdiv 2))))
                (H sdiv 2) (x mod (H sdiv 2)))"
proof -
  have idx: "0 \<le> x div (H sdiv 2)"
    using x(1) ph by (simp add: pos_imp_zdiv_nonneg_iff)
  have rx: "0 \<le> x mod (H sdiv 2)" "x mod (H sdiv 2) < H sdiv 2"
    using ph by simp_all
  have d: "x sdiv (H sdiv 2) = x div (H sdiv 2)" "x smod (H sdiv 2) = x mod (H sdiv 2)"
    using x(1) ph by (simp_all add: sdiv_nonneg smod_nonneg)
  have c0: "c \<noteq> 0" and ph0: "H sdiv 2 \<noteq> 0" using c ph by simp_all
  show ?thesis
    unfolding Windmill_core [OF c pw ph idx x(2) rx y oW oH, of s z, symmetric]
    by (simp add: Let_def d c0 ph0)
qed

lemma sdiv_pos_le:
  fixes c W :: int
  assumes "0 < c" "0 < W sdiv c"
  shows "(W sdiv c) * c \<le> W"
proof (cases "0 \<le> W")
  case True
  then have q: "W sdiv c = W div c" using assms(1) by (simp add: sdiv_nonneg)
  have "W div c * c + W mod c = W" by simp
  moreover have "0 \<le> W mod c" using assms(1) by simp
  ultimately show ?thesis unfolding q by linarith
next
  case False
  then have "W sdiv c \<le> 0"
    using assms(1) by (simp add: signed_divide_int_def sgn_if div_int_pos_iff)
  then show ?thesis using assms(2) by simp
qed

lemma Windmill_cpos_range:
  assumes "0 \<le> idx" "idx < 2 * c"
  shows "0 \<le> Windmill_cpos c idx \<and> Windmill_cpos c idx < c"
  using assms by (simp add: Windmill_cpos_def)

lemma Windmill_channel_range: "0 \<le> Windmill_channel s l \<and> Windmill_channel s l < 2"
  by (simp add: Windmill_channel_def)

lemma Windmill_channel_inj: "Windmill_channel s l = Windmill_channel s l' \<Longrightarrow> l = l'"
  by (simp add: Windmill_channel_def split: if_splits)

lemma Windmill_cpos_inj:
  assumes "Windmill_cpos c idx = Windmill_cpos c idx'" "(idx < c) = (idx' < c)"
  shows "idx = idx'"
  using assms by (simp add: Windmill_cpos_def split: if_splits)

lemma Windmill_visible:
  assumes c: "1 \<le> c" and W0: "0 \<le> W" and H0: "0 \<le> H"
    and oW: "W < 2 ^ 31" and oH: "H * c < 2 ^ 31"
    and vis: "in_canvas (mul32 (mul32 (H sdiv 2) c) 2) (W sdiv c) x y"
  shows "0 < W sdiv c \<and> 0 < H sdiv 2 \<and> (W sdiv c) * c \<le> W \<and> (H sdiv 2) * 2 \<le> H
    \<and> 0 \<le> x div (H sdiv 2) \<and> x div (H sdiv 2) < 2 * c \<and> 0 \<le> y \<and> y < W sdiv c
    \<and> MapVisibleToMatrix (WindmillPixelMapper z s c 2) W H x y =
     Inr (Windmill_cpos c (x div (H sdiv 2)) * (W sdiv c)
            + reflect ((x div (H sdiv 2) < c) \<noteq> Windmill_flip z (Windmill_cpos c (x div (H sdiv 2))))
                (W sdiv c) y,
          Windmill_channel s (x div (H sdiv 2) < c) * (H sdiv 2)
            + reflect (\<not> Windmill_flip z (Windmill_cpos c (x div (H sdiv 2))))
                (H sdiv 2) (x mod (H sdiv 2)))"
proof -
  define pw where "pw = W sdiv c"
  define ph where "ph = H sdiv 2"
  have phd: "ph = H div 2" using H0 by (simp add: ph_def sdiv_nonneg)
  have ph2: "ph * 2 \<le> H" and phn: "0 \<le> ph" using H0 unfolding phd by simp_all
  have "ph * 2 * c \<le> H * c" using ph2 c by (intro mult_right_mono) simp_all
  then have b2: "ph * c * 2 < 2 ^ 31" using oH by (simp add: algebra_simps)
  have n1: "0 \<le> ph * c" using phn c by simp
  have m1: "mul32 ph c = ph * c" by (rule mul32_id) (use n1 b2 in linarith)+
  have m2: "mul32 (ph * c) 2 = ph * c * 2" by (rule mul32_id) (use n1 b2 in linarith)+
  have x: "0 \<le> x" "x < ph * c * 2" and y: "0 \<le> y" "y < pw"
    using vis unfolding ph_def [symmetric] pw_def [symmetric] m1 m2 by (simp_all add: in_canvas_def)
  have "0 < ph * c * 2" using x by linarith
  then have ph: "0 < ph" using c by (simp add: zero_less_mult_iff)
  have pw: "0 < pw" using y by simp
  have c0: "0 < c" using c by simp
  have Wc: "pw * c \<le> W" unfolding pw_def using c0 pw by (intro sdiv_pos_le) (simp_all add: pw_def)
  have idx: "0 \<le> x div ph \<and> x div ph < 2 * c"
    using ph x by (intro div_block) (simp_all add: algebra_simps)
  have o1: "c * pw < 2 ^ 31" using Wc oW by (simp add: mult.commute)
  have o2: "2 * ph < 2 ^ 31" using b2 c ph
  proof -
    have "2 * ph * 1 \<le> 2 * ph * c" using c ph by (intro mult_left_mono) simp_all
    then show ?thesis using b2 by (simp add: algebra_simps)
  qed
  have nf: "MapVisibleToMatrix (WindmillPixelMapper z s c 2) W H x y =
     Inr (Windmill_cpos c (x div ph) * pw
            + reflect ((x div ph < c) \<noteq> Windmill_flip z (Windmill_cpos c (x div ph))) pw y,
          Windmill_channel s (x div ph < c) * ph
            + reflect (\<not> Windmill_flip z (Windmill_cpos c (x div ph))) ph (x mod ph))"
    unfolding pw_def ph_def
    using c0 pw ph x(1) idx y o1 o2
    by (intro Windmill_normal_form) (simp_all add: pw_def ph_def)
  show ?thesis
    using pw ph Wc ph2 idx y nf unfolding pw_def ph_def by blast
qed

lemma Windmill_bounds:
  assumes c: "1 \<le> c" and W0: "0 \<le> W" and H0: "0 \<le> H"
    and oW: "W < 2 ^ 31" and oH: "H * c < 2 ^ 31"
    and vis: "in_canvas (mul32 (mul32 (H sdiv 2) c) 2) (W sdiv c) x y"
  shows "\<exists>mx my. MapVisibleToMatrix (WindmillPixelMapper z s c 2) W H x y = Inr (mx, my)
           \<and> in_canvas W H mx my"
proof -
  define pw where "pw = W sdiv c"
  define ph where "ph = H sdiv 2"
  define idx where "idx = x div ph"
  define cpos where "cpos = Windmill_cpos c idx"
  define a where "a = reflect ((idx < c) \<noteq> Windmill_flip z cpos) pw y"
  define b where "b = reflect (\<not> Windmill_flip z cpos) ph (x mod ph)"
  define ch where "ch = Windmill_channel s (idx < c)"
  have g: "0 < pw \<and> 0 < ph \<and> pw * c \<le> W \<and> ph * 2 \<le> H
    \<and> 0 \<le> idx \<and> idx < 2 * c \<and> 0 \<le> y \<and> y < pw
    \<and> MapVisibleToMatrix (WindmillPixelMapper z s c 2) W H x y = Inr (cpos * pw + a, ch * ph + b)"
    unfolding a_def b_def ch_def cpos_def idx_def pw_def ph_def using assms by (rule Windmill_visible)
  have cp: "0 \<le> cpos \<and> cpos < c"
    unfolding cpos_def using g by (intro Windmill_cpos_range) simp_all
  have chr: "0 \<le> ch \<and> ch < 2"
    unfolding ch_def by (rule Windmill_channel_range)
  have ar: "0 \<le> a \<and> a < pw"
    unfolding a_def using g by (intro reflect_range) simp_all
  have br: "0 \<le> b \<and> b < ph"
    unfolding b_def using g by (intro reflect_range) simp_all
  have "0 \<le> cpos * pw + a \<and> cpos * pw + a < c * pw"
    using cp ar by (intro block_bound) simp_all
  moreover have "0 \<le> ch * ph + b \<and> ch * ph + b < 2 * ph"
    using chr br by (intro block_bound) simp_all
  ultimately have "in_canvas W H (cpos * pw + a) (ch * ph + b)"
    using g by (simp add: in_canvas_def mult.commute)
  with g show ?thesis by blast
qed

lemma Windmill_injective:
  assumes c: "1 \<le> c" and W0: "0 \<le> W" and H0: "0 \<le> H"
    and oW: "W < 2 ^ 31" and oH: "H * c < 2 ^ 31"
    and vis: "in_canvas (mul32 (mul32 (H sdiv 2) c) 2) (W sdiv c) x y"
    and vis': "in_canvas (mul32 (mul32 (H sdiv 2) c) 2) (W sdiv c) x' y'"
    and eq: "MapVisibleToMatrix (WindmillPixelMapper z s c 2) W H x y
           = MapVisibleToMatrix (WindmillPixelMapper z s c 2) W H x' y'"
  shows "x = x' \<and> y = y'"
proof -
  define pw where "pw = W sdiv c"
  define ph where "ph = H sdiv 2"
  define idx where "idx = x div ph"
  define cpos where "cpos = Windmill_cpos c idx"
  define a where "a = reflect ((idx < c) \<noteq> Windmill_flip z cpos) pw y"
  define b where "b = reflect (\<not> Windmill_flip z cpos) ph (x mod ph)"
  define ch where "ch = Windmill_channel s (idx < c)"
  define idx' where "idx' = x' div ph"
  define cpos' where "cpos' = Windmill_cpos c idx'"
  define a' where "a' = reflect ((idx' < c) \<noteq> Windmill_flip z cpos') pw y'"
  define b' where "b' = reflect (\<not> Windmill_flip z cpos') ph (x' mod ph)"
  define ch' where "ch' = Windmill_channel s (idx' < c)"
  have g: "0 < pw \<and> 0 < ph \<and> pw * c \<le> W \<and> ph * 2 \<le> H
    \<and> 0 \<le> idx \<and> idx < 2 * c \<and> 0 \<le> y \<and> y < pw
    \<and> MapVisibleToMatrix (WindmillPixelMapper z s c 2) W H x y = Inr (cpos * pw + a, ch * ph + b)"
    unfolding a_def b_def ch_def cpos_def idx_def pw_def ph_def
    using c W0 H0 oW oH vis by (rule Windmill_visible)
  have g': "0 < pw \<and> 0 < ph \<and> pw * c \<le> W \<and> ph * 2 \<le> H
    \<and> 0 \<le> idx' \<and> idx' < 2 * c \<and> 0 \<le> y' \<and> y' < pw
    \<and> MapVisibleToMatrix (WindmillPixelMapper z s c 2) W H x' y' = Inr (cpos' * pw + a', ch' * ph + b')"
    unfolding a'_def b'_def ch'_def cpos'_def idx'_def pw_def ph_def
    using c W0 H0 oW oH vis' by (rule Windmill_visible)
  have nf: "MapVisibleToMatrix (WindmillPixelMapper z s c 2) W H x y = Inr (cpos * pw + a, ch * ph + b)"
    using g by blast
  have nf': "MapVisibleToMatrix (WindmillPixelMapper z s c 2) W H x' y' = Inr (cpos' * pw + a', ch' * ph + b')"
    using g' by blast
  have e1: "cpos * pw + a = cpos' * pw + a'" and e2: "ch * ph + b = ch' * ph + b'"
    using eq unfolding nf nf' by simp_all
  have ar: "0 \<le> a \<and> a < pw"
    unfolding a_def using g by (intro reflect_range) simp_all
  have ar': "0 \<le> a' \<and> a' < pw"
    unfolding a'_def using g' by (intro reflect_range) simp_all
  have br: "0 \<le> b \<and> b < ph"
    unfolding b_def using g by (intro reflect_range) simp_all
  have br': "0 \<le> b' \<and> b' < ph"
    unfolding b'_def using g by (intro reflect_range) simp_all
  have u1: "cpos = cpos' \<and> a = a'"
    using ar ar' e1 by (intro block_unique) simp_all
  have u2: "ch = ch' \<and> b = b'"
    using br br' e2 by (intro block_unique) simp_all
  have "Windmill_channel s (idx < c) = Windmill_channel s (idx' < c)"
    using u2 unfolding ch_def ch'_def by simp
  then have left: "(idx < c) = (idx' < c)" by (rule Windmill_channel_inj)
  have "Windmill_cpos c idx = Windmill_cpos c idx'"
    using u1 unfolding cpos_def cpos'_def by simp
  then have ii: "idx = idx'" using left by (rule Windmill_cpos_inj)
  have cc: "cpos' = cpos" using u1 by simp
  have "reflect ((idx < c) \<noteq> Windmill_flip z cpos) pw y
      = reflect ((idx < c) \<noteq> Windmill_flip z cpos) pw y'"
    using u1 unfolding a_def a'_def cc ii by simp
  then have yy: "y = y'" by (rule reflect_inj)
  have "reflect (\<not> Windmill_flip z cpos) ph (x mod ph)
      = reflect (\<not> Windmill_flip z cpos) ph (x' mod ph)"
    using u2 unfolding b_def b'_def cc by simp
  then have mm: "x mod ph = x' mod ph" by (rule reflect_inj)
  have "x div ph = x' div ph" using ii unfolding idx_def idx'_def .
  then have "x = x'" using mm by (rule div_mod_unique)
  with yy show ?thesis by simp
qed

lemma half_panels:
  fixes W :: int
  shows "(W div 64) * 32 \<le> W div 2 \<and> (W div 64) * 32 + W div 2 \<le> W"
proof -
  have a: "W div 64 * 64 + W mod 64 = W" by simp
  have b: "0 \<le> W mod 64" by simp
  have c: "W div 2 * 2 + W mod 2 = W" by simp
  have d: "0 \<le> W mod 2" "W mod 2 < 2" by simp_all
  from a b c d show ?thesis by linarith
qed

lemma UArrangement_visible:
  assumes p: "1 \<le> p" and dv: "H smod p = 0"
    and W0: "0 \<le> W" and H0: "0 \<le> H" and oW: "W < 2 ^ 31" and oH: "2 * H < 2 ^ 31"
    and vis: "in_canvas (mul32 (W sdiv 64) 32) (mul32 2 H) x y"
  shows "0 < H sdiv p \<and> (H sdiv p) * p = H
    \<and> 0 \<le> x \<and> x < (W div 64) * 32 \<and> 0 \<le> y
    \<and> 0 \<le> y div (2 * (H sdiv p)) \<and> y div (2 * (H sdiv p)) < p
    \<and> MapVisibleToMatrix (UArrangementMapper p) W H x y =
     Inr (if y mod (2 * (H sdiv p)) < H sdiv p then x + W div 2
          else (W div 64) * 32 - x - 1,
          (y div (2 * (H sdiv p))) * (H sdiv p)
            + reflect (\<not> y mod (2 * (H sdiv p)) < H sdiv p) (2 * (H sdiv p))
                (y mod (2 * (H sdiv p))))"
proof -
  define ph where "ph = H sdiv p"
  define sl where "sl = 2 * ph"
  define vw where "vw = (W div 64) * 32"
  define k where "k = y div sl"
  define y1 where "y1 = y mod sl"
  have hp: "vw \<le> W div 2 \<and> vw + W div 2 \<le> W"
    unfolding vw_def by (rule half_panels)
  have q0: "0 \<le> W div 64" using W0 by (simp add: pos_imp_zdiv_nonneg_iff)
  then have vw0: "0 \<le> vw" by (simp add: vw_def)
  have h0: "0 \<le> W div 2" using W0 by (simp add: pos_imp_zdiv_nonneg_iff)
  have wd: "W sdiv 64 = W div 64" "W sdiv 2 = W div 2" using W0 by (simp_all add: sdiv_nonneg)
  have mvw: "mul32 (W div 64) 32 = vw"
    unfolding vw_def by (rule mul32_id) (use vw0 hp oW h0 in \<open>simp_all add: vw_def\<close>)
  have mvh: "mul32 2 H = 2 * H"
    by (rule mul32_id) (use H0 oH in simp_all)
  have x: "0 \<le> x" "x < vw" and y: "0 \<le> y" "y < 2 * H"
    using vis unfolding wd mvw mvh by (simp_all add: in_canvas_def)
  have Hp: "0 < H" using y by linarith
  from dv have "p dvd H" by (simp only: smod_eq_0_iff)
  then obtain m where m: "H = p * m" by (rule dvdE)
  have p0: "p \<noteq> 0" using p by simp
  have phm: "ph = m" unfolding ph_def m using p0 by (rule sdiv_mult_self)
  have "0 < p * m" using Hp m by simp
  then have ph: "0 < ph" using p phm by (simp add: zero_less_mult_iff)
  have php: "ph * p = H" using phm m by simp
  have "ph * 1 \<le> ph * p" using p ph by (intro mult_left_mono) simp_all
  then have phH: "ph \<le> H" using php by simp
  have msl: "mul32 2 ph = sl"
    unfolding sl_def by (rule mul32_id) (use ph phH oH in simp_all)
  have sl0: "0 < sl" using ph by (simp add: sl_def)
  have "y < p * sl" using y php unfolding sl_def by (simp add: algebra_simps)
  then have kr: "0 \<le> k \<and> k < p"
    unfolding k_def using sl0 y(1) by (intro div_block) simp_all
  have y1r: "0 \<le> y1" "y1 < sl" using sl0 by (simp_all add: y1_def)
  have "(k + 1) * ph \<le> p * ph" using kr ph by (intro mult_right_mono) simp_all
  then have ok: "k * ph + ph < 2 ^ 31" using php oH Hp by (simp add: algebra_simps)
  have dm: "y sdiv sl = k" "y smod sl = y1"
    using y(1) sl0 by (simp_all add: sdiv_nonneg smod_nonneg k_def y1_def)
  have raw: "MapVisibleToMatrix (UArrangementMapper p) W H x y =
      (if y1 < ph then Inr (add32 x (W div 2), add32 (mul32 k ph) y1)
       else Inr (sub32 (sub32 vw x) 1, add32 (mul32 k ph) (sub32 (sub32 sl y1) 1)))"
    using p0 sl0
    by (simp add: Let_def wd mvw ph_def [symmetric] msl dm)
  have t1: "add32 x (W div 2) = x + W div 2"
    by (rule add32_id) (use x h0 hp oW in simp_all)
  have t2: "add32 (mul32 k ph) y1 = k * ph + y1" if "y1 < ph"
    using kr ok y1r(1) that by (intro block_start_exact) simp_all
  have b1: "sub32 (sub32 vw x) 1 = vw - x - 1"
  proof -
    have "sub32 vw x = vw - x" by (rule sub32_id) (use x hp oW h0 in simp_all)
    moreover have "sub32 (vw - x) 1 = vw - x - 1" by (rule sub32_id) (use x hp oW h0 in simp_all)
    ultimately show ?thesis by simp
  qed
  have b2: "sub32 (sub32 sl y1) 1 = sl - y1 - 1"
  proof -
    have s: "sl < 2 ^ 31" using phH oH by (simp add: sl_def)
    have "sub32 sl y1 = sl - y1" by (rule sub32_id) (use y1r s in simp_all)
    moreover have "sub32 (sl - y1) 1 = sl - y1 - 1" by (rule sub32_id) (use y1r s in simp_all)
    ultimately show ?thesis by simp
  qed
  have b3: "add32 (mul32 k ph) (sl - y1 - 1) = k * ph + (sl - y1 - 1)" if "\<not> y1 < ph"
    using kr ok y1r that by (intro block_start_exact) (simp_all add: sl_def)
  have nf: "MapVisibleToMatrix (UArrangementMapper p) W H x y =
      Inr (if y1 < ph then x + W div 2 else vw - x - 1, k * ph + reflect (\<not> y1 < ph) sl y1)"
    unfolding raw by (simp add: t1 t2 b1 b2 b3 reflect_def)
  show ?thesis
    using ph php x y(1) kr nf unfolding y1_def k_def vw_def sl_def ph_def by blast
qed

lemma UArrangement_bounds:
  assumes p: "1 \<le> p" and dv: "H smod p = 0"
    and W0: "0 \<le> W" and H0: "0 \<le> H" and oW: "W < 2 ^ 31" and oH: "2 * H < 2 ^ 31"
    and vis: "in_canvas (mul32 (W sdiv 64) 32) (mul32 2 H) x y"
  shows "\<exists>mx my. MapVisibleToMatrix (UArrangementMapper p) W H x y = Inr (mx, my)
           \<and> in_canvas W H mx my"
proof -
  define ph where "ph = H sdiv p"
  define sl where "sl = 2 * ph"
  define top where "top = (y mod sl < ph)"
  define mx where "mx = (if top then x + W div 2 else (W div 64) * 32 - x - 1)"
  define t where "t = reflect (\<not> top) sl (y mod sl)"
  have g: "0 < ph \<and> ph * p = H \<and> 0 \<le> x \<and> x < (W div 64) * 32 \<and> 0 \<le> y
    \<and> 0 \<le> y div sl \<and> y div sl < p
    \<and> MapVisibleToMatrix (UArrangementMapper p) W H x y = Inr (mx, (y div sl) * ph + t)"
    unfolding mx_def t_def top_def sl_def ph_def using assms by (rule UArrangement_visible)
  have m: "0 \<le> y mod sl \<and> y mod sl < sl"
    using g by (simp add: sl_def)
  have tr: "0 \<le> t \<and> t < ph"
    using m unfolding t_def reflect_def top_def sl_def by auto
  have "0 \<le> (y div sl) * ph + t \<and> (y div sl) * ph + t < p * ph"
    using g tr by (intro block_bound) simp_all
  moreover have "0 \<le> mx \<and> mx < W"
    using g W0 half_panels [of W] unfolding mx_def by auto
  ultimately have "in_canvas W H mx ((y div sl) * ph + t)"
    using g by (simp add: in_canvas_def mult.commute)
  with g show ?thesis by blast
qed

lemma UArrangement_injective:
  assumes p: "1 \<le> p" and dv: "H smod p = 0"
    and W0: "0 \<le> W" and H0: "0 \<le> H" and oW: "W < 2 ^ 31" and oH: "2 * H < 2 ^ 31"
    and vis: "in_canvas (mul32 (W sdiv 64) 32) (mul32 2 H) x y"
    and vis': "in_canvas (mul32 (W sdiv 64) 32) (mul32 2 H) x' y'"
    and eq: "MapVisibleToMatrix (UArrangementMapper p) W H x y
           = MapVisibleToMatrix (UArrangementMapper p) W H x' y'"
  shows "x = x' \<and> y = y'"
proof -
  define ph where "ph = H sdiv p"
  define sl where "sl = 2 * ph"
  define top where "top = (y mod sl < ph)"
  define mx where "mx = (if top then x + W div 2 else (W div 64) * 32 - x - 1)"
  define t where "t = reflect (\<not> top) sl (y mod sl)"
  define top' where "top' = (y' mod sl < ph)"
  define mx' where "mx' = (if top' then x' + W div 2 else (W div 64) * 32 - x' - 1)"
  define t' where "t' = reflect (\<not> top') sl (y' mod sl)"
  have g: "0 < ph \<and> ph * p = H \<and> 0 \<le> x \<and> x < (W div 64) * 32 \<and> 0 \<le> y
    \<and> 0 \<le> y div sl \<and> y div sl < p
    \<and> MapVisibleToMatrix (UArrangementMapper p) W H x y = Inr (mx, (y div sl) * ph + t)"
    unfolding mx_def t_def top_def sl_def ph_def
    using p dv W0 H0 oW oH vis by (rule UArrangement_visible)
  have g': "0 < ph \<and> ph * p = H \<and> 0 \<le> x' \<and> x' < (W div 64) * 32 \<and> 0 \<le> y'
    \<and> 0 \<le> y' div sl \<and> y' div sl < p
    \<and> MapVisibleToMatrix (UArrangementMapper p) W H x' y' = Inr (mx', (y' div sl) * ph + t')"
    unfolding mx'_def t'_def top'_def sl_def ph_def
    using p dv W0 H0 oW oH vis' by (rule UArrangement_visible)
  have nf: "MapVisibleToMatrix (UArrangementMapper p) W H x y = Inr (mx, (y div sl) * ph + t)"
    using g by blast
  have nf': "MapVisibleToMatrix (UArrangementMapper p) W H x' y' = Inr (mx', (y' div sl) * ph + t')"
    using g' by blast
  have e1: "mx = mx'" and e2: "(y div sl) * ph + t = (y' div sl) * ph + t'"
    using eq unfolding nf nf' by simp_all
  have m: "0 \<le> y mod sl \<and> y mod sl < sl" "0 \<le> y' mod sl \<and> y' mod sl < sl"
    using g by (simp_all add: sl_def)
  have tr: "0 \<le> t \<and> t < ph"
    using m unfolding t_def reflect_def top_def sl_def by auto
  have tr': "0 \<le> t' \<and> t' < ph"
    using m unfolding t'_def reflect_def top'_def sl_def by auto
  have u: "y div sl = y' div sl \<and> t = t'"
    using tr tr' e2 by (intro block_unique) simp_all
  have xs: "0 \<le> x" "x < (W div 64) * 32" "0 \<le> x'" "x' < (W div 64) * 32"
    using g g' by simp_all
  have side: "top = top'"
    using e1 xs half_panels [of W] unfolding mx_def mx'_def by (auto split: if_splits)
  have "x = x'"
    using e1 unfolding mx_def mx'_def side by (simp split: if_splits)
  moreover have "reflect (\<not> top) sl (y mod sl) = reflect (\<not> top) sl (y' mod sl)"
    using u unfolding t_def t'_def side by simp
  then have "y mod sl = y' mod sl" by (rule reflect_inj)
  with u have "y = y'" by (intro div_mod_unique [of y sl y']) simp_all
  ultimately show ?thesis by simp
qed

lemma SetParameters_Rotate_shape:
  assumes "SetParameters (RotatePixelMapper a0) chain parallel param = (ok, m)"
  shows "\<exists>a. m = RotatePixelMapper a"
  using assms by (auto simp: Let_def split: option.splits list.splits prod.splits if_splits)

lemma SetParameters_Mirror_shape:
  assumes "SetParameters (MirrorPixelMapper h0) chain parallel param = (ok, m)"
  shows "\<exists>h. m = MirrorPixelMapper h"
  using assms by (auto split: option.splits list.splits if_splits)

lemma SetParameters_UArrangement_shape:
  assumes "SetParameters (UArrangementMapper p0) chain parallel param = (True, m)"
  shows "m = UArrangementMapper parallel \<and> 2 \<le> chain"
  using assms by (auto split: if_splits)

lemma SetParameters_Vertical_shape:
  assumes "SetParameters (VerticalMapper z0 c0 p0) chain parallel param = (ok, m)"
  shows "\<exists>z. m = VerticalMapper z chain parallel"
  using assms by auto

lemma SetParameters_Windmill_shape:
  assumes "SetParameters (WindmillPixelMapper z0 s0 c0 p0) chain parallel param = (True, m)"
  shows "parallel = 2 \<and> (\<exists>z s. m = WindmillPixelMapper z s chain 2)"
  using assms by (auto simp: Let_def split: option.splits prod.splits if_splits)

lemma Rotate_bounds:
  assumes a: "a = 0 \<or> a = 90 \<or> a = 180 \<or> a = 270"
    and size: "GetSizeMapping (RotatePixelMapper a) W H = Inr (True, vw, vh)"
    and vis: "in_canvas vw vh x y"
  shows "\<exists>mx my. MapVisibleToMatrix (RotatePixelMapper a) W H x y = Inr (mx, my)
           \<and> in_canvas W H mx my"
  using a size vis by (auto simp: in_canvas_def signed_modulo_int_def)

lemma Rotate_injective:
  assumes a: "a = 0 \<or> a = 90 \<or> a = 180 \<or> a = 270"
    and eq: "MapVisibleToMatrix (RotatePixelMapper a) W H x y
           = MapVisibleToMatrix (RotatePixelMapper a) W H x' y'"
  shows "x = x' \<and> y = y'"
  using a eq by auto

lemma Mirror_bounds:
  assumes vis: "in_canvas W H x y"
  shows "\<exists>mx my. MapVisibleToMatrix (MirrorPixelMapper h) W H x y = Inr (mx, my)
           \<and> in_canvas W H mx my"
  using vis by (cases h) (auto simp: in_canvas_def)

lemma Mirror_injective:
  assumes eq: "MapVisibleToMatrix (MirrorPixelMapper h) W H x y
           = MapVisibleToMatrix (MirrorPixelMapper h) W H x' y'"
  shows "x = x' \<and> y = y'"
  using eq by (cases h) auto

lemma Rotate_canonical_from:
  assumes v: "- 360 \<le> v" "v < 2 ^ 31 - 360" and d: "to_int v smod 90 = 0"
  shows "to_int (to_int v + 360) smod 360 = v mod 360
     \<and> (v mod 360 = 0 \<or> v mod 360 = 90 \<or> v mod 360 = 180 \<or> v mod 360 = 270)"
proof -
  have t: "to_int v = v" using v by (simp add: to_int_def)
  have t2: "to_int (v + 360) = v + 360" using v by (simp add: to_int_def)
  have "90 dvd v" using d unfolding t by (simp only: smod_eq_0_iff)
  then obtain k where k: "v = 90 * k" by (rule dvdE)
  have "(v + 360) smod 360 = (v + 360) mod 360" using v by (simp add: smod_nonneg)
  then have a: "to_int (to_int v + 360) smod 360 = v mod 360" unfolding t t2 by simp
  have "(90 * k) mod (90 * 4) = 90 * (k mod 4)" by (rule mult_mod_right [symmetric])
  then have m: "v mod 360 = 90 * (k mod 4)" unfolding k by simp
  have "0 \<le> k mod 4" "k mod 4 < 4" by simp_all
  then have "k mod 4 = 0 \<or> k mod 4 = 1 \<or> k mod 4 = 2 \<or> k mod 4 = 3" by linarith
  then have "v mod 360 = 0 \<or> v mod 360 = 90 \<or> v mod 360 = 180 \<or> v mod 360 = 270"
    unfolding m by auto
  with a show ?thesis by simp
qed

section \<open>Rotate\<close>

text \<open>
  Claim C2. Configured with the parameter 0, 90, 180 or 270, the Rotate mapper stores
  that angle. With the angle 0 or 180 \<open>GetSizeMapping\<close> returns the size of the matrix,
  with 90 or 270 the size with width and height exchanged. Every \<open>(x, y)\<close> is mapped to
  \<open>(x, y)\<close> for 0, to \<open>(matrix_width - y - 1, x)\<close> for 90, to
  \<open>(matrix_width - x - 1, matrix_height - y - 1)\<close> for 180 and to
  \<open>(y, matrix_height - x - 1)\<close> for 270.
\<close>

theorem Rotate_canonical_angles:
  "SetParameters (RotatePixelMapper a0) chain parallel (Some ''0'') = (True, RotatePixelMapper 0)
   \<and> SetParameters (RotatePixelMapper a0) chain parallel (Some ''90'') = (True, RotatePixelMapper 90)
   \<and> SetParameters (RotatePixelMapper a0) chain parallel (Some ''180'') = (True, RotatePixelMapper 180)
   \<and> SetParameters (RotatePixelMapper a0) chain parallel (Some ''270'') = (True, RotatePixelMapper 270)
   \<and> GetSizeMapping (RotatePixelMapper 0) W H = Inr (True, W, H)
   \<and> GetSizeMapping (RotatePixelMapper 180) W H = Inr (True, W, H)
   \<and> GetSizeMapping (RotatePixelMapper 90) W H = Inr (True, H, W)
   \<and> GetSizeMapping (RotatePixelMapper 270) W H = Inr (True, H, W)
   \<and> MapVisibleToMatrix (RotatePixelMapper 0) W H x y = Inr (x, y)
   \<and> MapVisibleToMatrix (RotatePixelMapper 90) W H x y = Inr (W - y - 1, x)
   \<and> MapVisibleToMatrix (RotatePixelMapper 180) W H x y = Inr (W - x - 1, H - y - 1)
   \<and> MapVisibleToMatrix (RotatePixelMapper 270) W H x y = Inr (y, H - x - 1)"
proof -
  have conf: "SetParameters (RotatePixelMapper a0) chain parallel (Some ''0'') = (True, RotatePixelMapper 0)"
      "SetParameters (RotatePixelMapper a0) chain parallel (Some ''90'') = (True, RotatePixelMapper 90)"
      "SetParameters (RotatePixelMapper a0) chain parallel (Some ''180'') = (True, RotatePixelMapper 180)"
      "SetParameters (RotatePixelMapper a0) chain parallel (Some ''270'') = (True, RotatePixelMapper 270)"
    by (simp_all add: strtol_def isspace_def isdigit_def digit_value_def to_int_def
          LONG_MAX_def LONG_MIN_def signed_modulo_int_def)
  have size: "GetSizeMapping (RotatePixelMapper 0) W H = Inr (True, W, H)"
      "GetSizeMapping (RotatePixelMapper 180) W H = Inr (True, W, H)"
      "GetSizeMapping (RotatePixelMapper 90) W H = Inr (True, H, W)"
      "GetSizeMapping (RotatePixelMapper 270) W H = Inr (True, H, W)"
    by (simp_all add: signed_modulo_int_def)
  show ?thesis
    by (simp only: conf size MapVisibleToMatrix.simps) simp
qed

theorem Rotate_canonical_angles_witness:
  "SetParameters (RotatePixelMapper 0) 1 1 (Some ''90'') = (True, RotatePixelMapper 90)
   \<and> GetSizeMapping (RotatePixelMapper 90) 64 32 = Inr (True, 32, 64)
   \<and> MapVisibleToMatrix (RotatePixelMapper 90) 64 32 5 7 = Inr (56, 5)"
  using Rotate_canonical_angles [of 0 1 1 64 32 5 7] by simp

text \<open>
  Claim C3. The parameter -450 is a multiple of 90 and is accepted, but the angle stored
  is \<open>(-450 + 360) % 360 = -90\<close>, not 270: \<open>GetSizeMapping\<close> exchanges width and height,
  and \<open>MapVisibleToMatrix\<close> finds no case for -90 and writes no coordinate, where the
  mapper configured with 270 maps \<open>(0, 0)\<close> of a 64 by 32 matrix to \<open>(0, 31)\<close>.
\<close>

theorem Rotate_below_minus_360:
  "SetParameters (RotatePixelMapper 0) 1 1 (Some ''-450'') = (True, RotatePixelMapper (- 90))
   \<and> GetSizeMapping (RotatePixelMapper (- 90)) 64 32 = Inr (True, 32, 64)
   \<and> MapVisibleToMatrix (RotatePixelMapper (- 90)) 64 32 0 0 = Inl OutputsNotWritten
   \<and> SetParameters (RotatePixelMapper 0) 1 1 (Some ''270'') = (True, RotatePixelMapper 270)
   \<and> MapVisibleToMatrix (RotatePixelMapper 270) 64 32 0 0 = Inr (0, 31)"
  by (simp add: strtol_def isspace_def isdigit_def digit_value_def to_int_def
        LONG_MAX_def LONG_MIN_def signed_modulo_int_def)

text \<open>
  The angle is normalised for every value from -360 on: a parameter that \<open>strtol\<close> reads
  completely as a multiple \<open>v\<close> of 90 with \<open>-360 \<le> v < 2^31 - 360\<close> is accepted and
  stores \<open>v mod 360\<close>, one of the four angles of the \<open>switch\<close>.
\<close>

lemma Rotate_accepts_from_minus_360:
  assumes parse: "strtol (c # cs) = (v, [])"
    and v: "- 360 \<le> v" "v < 2 ^ 31 - 360" and d: "90 dvd v"
  shows "SetParameters (RotatePixelMapper a0) chain parallel (Some (c # cs))
           = (True, RotatePixelMapper (v mod 360))
     \<and> (v mod 360 = 0 \<or> v mod 360 = 90 \<or> v mod 360 = 180 \<or> v mod 360 = 270)"
proof -
  have t: "to_int v = v" using v by (simp add: to_int_def)
  have s: "to_int v smod 90 = 0" unfolding t using d by (simp only: smod_eq_0_iff)
  have r: "to_int (to_int v + 360) smod 360 = v mod 360
     \<and> (v mod 360 = 0 \<or> v mod 360 = 90 \<or> v mod 360 = 180 \<or> v mod 360 = 270)"
    using v s by (rule Rotate_canonical_from)
  have "SetParameters (RotatePixelMapper a0) chain parallel (Some (c # cs))
           = (True, RotatePixelMapper (to_int (to_int v + 360) smod 360))"
    using s by (simp add: parse)
  with r show ?thesis by simp
qed

section \<open>Mirror\<close>

text \<open>
  Claim C4. A parameter of more than one character is not rejected: after the
  diagnostic the first character alone decides, so \<open>Hx\<close> configures the horizontal and
  \<open>VH\<close> the vertical mirror, and \<open>SetParameters\<close> returns true for both.
\<close>

theorem Mirror_accepts_longer_parameter:
  "SetParameters (MirrorPixelMapper True) 1 1 (Some ''Hx'') = (True, MirrorPixelMapper True)
   \<and> SetParameters (MirrorPixelMapper True) 1 1 (Some ''VH'') = (True, MirrorPixelMapper False)"
  by simp

text \<open>
  Claim C5. For both values of \<open>horizontal_\<close> and every matrix size, \<open>GetSizeMapping\<close>
  returns the size of the matrix unchanged, and a coordinate inside the matrix is mapped
  to a coordinate inside the matrix that the same mapping takes back to the original.
\<close>

theorem Mirror_involution:
  assumes "0 \<le> x" "x < W" "0 \<le> y" "y < H"
  shows "GetSizeMapping (MirrorPixelMapper h) W H = Inr (True, W, H)
     \<and> (\<exists>mx my. MapVisibleToMatrix (MirrorPixelMapper h) W H x y = Inr (mx, my)
           \<and> 0 \<le> mx \<and> mx < W \<and> 0 \<le> my \<and> my < H
           \<and> MapVisibleToMatrix (MirrorPixelMapper h) W H mx my = Inr (x, y))"
  using assms by (cases h) auto

theorem Mirror_involution_witness:
  "GetSizeMapping (MirrorPixelMapper True) 64 32 = Inr (True, 64, 32)
   \<and> MapVisibleToMatrix (MirrorPixelMapper True) 64 32 5 7 = Inr (58, 7)
   \<and> MapVisibleToMatrix (MirrorPixelMapper True) 64 32 58 7 = Inr (5, 7)"
  using Mirror_involution [of 5 64 7 32 True] by simp

section \<open>U-Arrangement\<close>

text \<open>
  Claim C6. \<open>SetParameters\<close> of the U-mapper returns false exactly when the chain is
  less than 2 or odd; a chain of 3 is rejected. When it succeeds it stores the parallel
  count it was given. A chain of 4 with one parallel chain is accepted, and the mapper so
  configured gives a 256 by 32 matrix the visible size 128 by 64. After a successful
  configuration with a parallel count other than zero, \<open>GetSizeMapping\<close> returns false
  exactly when that parallel count does not divide the height of the matrix; the same
  holds of any stored parallel count other than zero.
\<close>

theorem UArrangement_configure:
  "(fst (SetParameters (UArrangementMapper p0) chain parallel param) = False
      \<longleftrightarrow> chain < 2 \<or> odd chain)
   \<and> fst (SetParameters (UArrangementMapper p0) 3 parallel param) = False
   \<and> (fst (SetParameters (UArrangementMapper p0) chain parallel param) \<longrightarrow>
        snd (SetParameters (UArrangementMapper p0) chain parallel param)
          = UArrangementMapper parallel)
   \<and> fst (SetParameters (UArrangementMapper p0) 4 1 param) = True
   \<and> GetSizeMapping (snd (SetParameters (UArrangementMapper p0) 4 1 param)) 256 32
        = Inr (True, 128, 64)
   \<and> (fst (SetParameters (UArrangementMapper p0) chain parallel param) \<and> parallel \<noteq> 0 \<longrightarrow>
        ((\<exists>vw vh. GetSizeMapping (snd (SetParameters (UArrangementMapper p0) chain parallel param))
                     W H = Inr (False, vw, vh))
           \<longleftrightarrow> \<not> parallel dvd H))
   \<and> (p \<noteq> 0 \<longrightarrow>
        ((\<exists>vw vh. GetSizeMapping (UArrangementMapper p) W H = Inr (False, vw, vh))
           \<longleftrightarrow> \<not> p dvd H))"
proof -
  have a: "fst (SetParameters (UArrangementMapper p0) chain parallel param) = False
      \<longleftrightarrow> chain < 2 \<or> odd chain"
    by (simp add: smod_eq_0_iff)
  have b: "fst (SetParameters (UArrangementMapper p0) 3 parallel param) = False"
    by (simp add: smod_eq_0_iff)
  have st: "fst (SetParameters (UArrangementMapper p0) chain parallel param) \<longrightarrow>
        snd (SetParameters (UArrangementMapper p0) chain parallel param)
          = UArrangementMapper parallel"
    by simp
  have c: "fst (SetParameters (UArrangementMapper p0) 4 1 param) = True"
    by (simp add: smod_eq_0_iff)
  have d: "GetSizeMapping (snd (SetParameters (UArrangementMapper p0) 4 1 param)) 256 32
        = Inr (True, 128, 64)"
    by (simp add: smod_eq_0_iff sdiv_nonneg mul32_def to_int_def)
  have e: "p \<noteq> 0 \<longrightarrow>
        ((\<exists>vw vh. GetSizeMapping (UArrangementMapper p) W H = Inr (False, vw, vh))
           \<longleftrightarrow> \<not> p dvd H)" for p
    by (simp add: smod_eq_0_iff)
  have l: "fst (SetParameters (UArrangementMapper p0) chain parallel param) \<and> parallel \<noteq> 0 \<longrightarrow>
        ((\<exists>vw vh. GetSizeMapping (snd (SetParameters (UArrangementMapper p0) chain parallel param))
                     W H = Inr (False, vw, vh))
           \<longleftrightarrow> \<not> parallel dvd H)"
  proof
    assume h: "fst (SetParameters (UArrangementMapper p0) chain parallel param) \<and> parallel \<noteq> 0"
    with st have s: "snd (SetParameters (UArrangementMapper p0) chain parallel param)
          = UArrangementMapper parallel"
      by blast
    show "(\<exists>vw vh. GetSizeMapping (snd (SetParameters (UArrangementMapper p0) chain parallel param))
                     W H = Inr (False, vw, vh))
           \<longleftrightarrow> \<not> parallel dvd H"
      unfolding s using e [of parallel] h by blast
  qed
  from a b st c d l e [of p] show ?thesis by (intro conjI)
qed

theorem UArrangement_configure_witness:
  "fst (SetParameters (UArrangementMapper 1) 6 2 None) = True
   \<and> snd (SetParameters (UArrangementMapper 1) 6 2 None) = UArrangementMapper 2
   \<and> (\<exists>vw vh. GetSizeMapping (snd (SetParameters (UArrangementMapper 1) 6 2 None)) 192 33
                 = Inr (False, vw, vh))"
proof -
  have ok: "fst (SetParameters (UArrangementMapper 1) 6 2 None)"
    by (simp add: smod_eq_0_iff)
  have nd: "\<not> (2::int) dvd 33"
    by simp
  from UArrangement_configure [of 1 6 2 None 33 192 2] ok nd show ?thesis
    by simp
qed

section \<open>Vertical\<close>

text \<open>
  Claim C10. \<open>SetParameters\<close> of the V-mapper returns true for every chain, parallel count
  and parameter. It stores the chain and the parallel count, and it switches the
  serpentine flag on exactly when the parameter is the string \<open>Z\<close> or \<open>z\<close>: a null
  pointer and any other string leave it off and are not rejected.
\<close>

theorem Vertical_configure_total:
  "SetParameters (VerticalMapper z c p) chain parallel param =
     (True, VerticalMapper (param = Some ''Z'' \<or> param = Some ''z'') chain parallel)"
  by (cases param) (simp_all add: strcasecmp_equal_Z)

theorem Vertical_configure_total_witness:
  "SetParameters (VerticalMapper True 1 1) 3 2 (Some ''Zebra'') = (True, VerticalMapper False 3 2)"
  using Vertical_configure_total [of True 1 1 3 2 "Some ''Zebra''"] by simp

section \<open>Windmill\<close>

text \<open>
  Claim C7. \<open>SetParameters\<close> of the Windmill mapper returns false exactly when the
  parallel count is not 2 or the parameter holds a character other than \<open>Z\<close>, \<open>z\<close>, \<open>S\<close>,
  \<open>s\<close>, the colon, the comma, the semicolon and the space. With one parallel chain it
  fails; with two parallel chains, a chain of 2 and the parameter \<open>Z\<close> it succeeds and
  switches the serpentine flag on.
\<close>

theorem Windmill_configure:
  "(fst (SetParameters (WindmillPixelMapper z0 s0 c0 p0) chain parallel param) = False
      \<longleftrightarrow> parallel \<noteq> 2 \<or> (\<exists>str c. param = Some str \<and> c \<in> set str \<and>
             \<not> (c = CHR ''Z'' \<or> c = CHR ''z'' \<or> c = CHR ''S'' \<or> c = CHR ''s''
                 \<or> c = CHR '':'' \<or> c = CHR '','' \<or> c = CHR '';'' \<or> c = CHR '' '')))
   \<and> fst (SetParameters (WindmillPixelMapper z0 s0 c0 p0) chain 1 param) = False
   \<and> SetParameters (WindmillPixelMapper z0 s0 c0 p0) 2 2 (Some ''Z'')
        = (True, WindmillPixelMapper True False 2 2)"
proof -
  have iff: "fst (SetParameters (WindmillPixelMapper z0 s0 c0 p0) chain parallel param) = False
      \<longleftrightarrow> parallel \<noteq> 2 \<or> (\<exists>str c. param = Some str \<and> c \<in> set str \<and> \<not> Windmill_char c)"
  proof (cases param)
    case None
    then show ?thesis by simp
  next
    case (Some str)
    have "fst (SetParameters (WindmillPixelMapper z0 s0 c0 p0) chain parallel param) =
        (parallel = 2 \<and> fst (Windmill_scan str False False))"
      using Some by (simp add: split_beta)
    also have "\<dots> = (parallel = 2 \<and> (\<forall>c \<in> set str. Windmill_char c))"
      by (simp only: Windmill_scan_accepts)
    finally show ?thesis
      using Some by blast
  qed
  have one: "fst (SetParameters (WindmillPixelMapper z0 s0 c0 p0) chain 1 param) = False"
    by simp
  have two: "SetParameters (WindmillPixelMapper z0 s0 c0 p0) 2 2 (Some ''Z'')
        = (True, WindmillPixelMapper True False 2 2)"
    by simp
  from iff [unfolded Windmill_char_def] one two show ?thesis
    by (rule conjI [OF _ conjI])
qed

theorem Windmill_configure_witness:
  "fst (SetParameters (WindmillPixelMapper False False 1 1) 2 2 (Some ''Z;x'')) = False
   \<and> fst (SetParameters (WindmillPixelMapper False False 1 1) 2 2 (Some ''s, Z'')) = True"
proof -
  have "CHR ''x'' \<in> set ''Z;x''"
    by simp
  then have "fst (SetParameters (WindmillPixelMapper False False 1 1) 2 2 (Some ''Z;x'')) = False"
    using Windmill_configure [of False False 1 1 2 2 "Some ''Z;x''"] by blast
  moreover have "fst (SetParameters (WindmillPixelMapper False False 1 1) 2 2 (Some ''s, Z'')) = True"
    by simp
  ultimately show ?thesis by simp
qed

section \<open>Agreement of the size and the mapping\<close>

text \<open>
  Claim C1. The Rotate mapper breaks the agreement of \<open>GetSizeMapping\<close> and
  \<open>MapVisibleToMatrix\<close>. Configured with the parameter -540 it succeeds and stores the
  angle \<open>(-540 + 360) % 360 = -180\<close>; \<open>GetSizeMapping\<close> succeeds and gives a 64 by 32
  matrix the visible size 64 by 32; the coordinate \<open>(5, 7)\<close> lies in that canvas, and
  \<open>MapVisibleToMatrix\<close> finds no case for -180 and writes no matrix coordinate for it.
\<close>

theorem Rotate_leaves_visible_unmapped:
  "SetParameters (RotatePixelMapper 0) 1 1 (Some ''-540'') = (True, RotatePixelMapper (- 180))
   \<and> GetSizeMapping (RotatePixelMapper (- 180)) 64 32 = Inr (True, 64, 32)
   \<and> in_canvas 64 32 5 7
   \<and> MapVisibleToMatrix (RotatePixelMapper (- 180)) 64 32 5 7 = Inl OutputsNotWritten"
  by (simp add: in_canvas_def strtol_def isspace_def isdigit_def digit_value_def to_int_def
        LONG_MAX_def LONG_MIN_def signed_modulo_int_def)

text \<open>
  Everywhere else the agreement holds inside the data model. Let the chain and the
  parallel count be at least 1, let the width of the matrix be a non-negative multiple of
  the chain and its height a non-negative multiple of the parallel count, and let
  \<open>matrix_width * parallel\<close> and \<open>matrix_height * chain\<close> fit the type \<open>int\<close>. When
  \<open>SetParameters\<close> and \<open>GetSizeMapping\<close> succeed, and the angle stored by a Rotate mapper
  is 0, 90, 180 or 270, every coordinate of the visible canvas is mapped to a coordinate
  of the matrix, and two visible coordinates with the same image are equal.
\<close>

lemma mapping_agrees_in_data_model:
  assumes conf: "SetParameters m0 chain parallel param = (True, m)"
    and size: "GetSizeMapping m W H = Inr (True, vw, vh)"
    and chain: "1 \<le> chain" and parallel: "1 \<le> parallel"
    and W0: "0 \<le> W" and H0: "0 \<le> H"
    and cW: "chain dvd W" and pH: "parallel dvd H"
    and oW: "W * parallel < 2 ^ 31" and oH: "H * chain < 2 ^ 31"
    and rot: "\<forall>a. m = RotatePixelMapper a \<longrightarrow> a = 0 \<or> a = 90 \<or> a = 180 \<or> a = 270"
  shows "(\<forall>x y. in_canvas vw vh x y \<longrightarrow>
            (\<exists>mx my. MapVisibleToMatrix m W H x y = Inr (mx, my) \<and> in_canvas W H mx my))
       \<and> (\<forall>x y x' y'. in_canvas vw vh x y \<and> in_canvas vw vh x' y'
            \<and> MapVisibleToMatrix m W H x y = MapVisibleToMatrix m W H x' y'
            \<longrightarrow> x = x' \<and> y = y')"
proof (cases m0)
  case (RotatePixelMapper a0)
  with conf obtain a where m: "m = RotatePixelMapper a"
    using SetParameters_Rotate_shape by blast
  with rot have a: "a = 0 \<or> a = 90 \<or> a = 180 \<or> a = 270" by simp
  show ?thesis
    unfolding m using Rotate_bounds [OF a size [unfolded m]] Rotate_injective [OF a] by blast
next
  case (MirrorPixelMapper h0)
  with conf obtain h where m: "m = MirrorPixelMapper h"
    using SetParameters_Mirror_shape by blast
  have vv: "vw = W" "vh = H" using size unfolding m by simp_all
  show ?thesis
    unfolding m vv using Mirror_bounds Mirror_injective by blast
next
  case (UArrangementMapper p0)
  with conf have m: "m = UArrangementMapper parallel" and c2: "2 \<le> chain"
    using SetParameters_UArrangement_shape by blast+
  have p0: "parallel \<noteq> 0" using parallel by simp
  have vv: "vw = mul32 (W sdiv 64) 32" "vh = mul32 2 H" and d: "H smod parallel = 0"
    using size p0 unfolding m by simp_all
  have "W * 1 \<le> W * parallel" using W0 parallel by (intro mult_left_mono) simp_all
  then have w: "W < 2 ^ 31" using oW by simp
  have "H * 2 \<le> H * chain" using H0 c2 by (intro mult_left_mono) simp_all
  then have h: "2 * H < 2 ^ 31" using oH by simp
  show ?thesis
    unfolding m vv
    using UArrangement_bounds [OF parallel d W0 H0 w h]
      UArrangement_injective [OF parallel d W0 H0 w h] by blast
next
  case (VerticalMapper z0 c0 p0)
  with conf obtain z where m: "m = VerticalMapper z chain parallel"
    using SetParameters_Vertical_shape by blast
  have c0: "chain \<noteq> 0" and p0: "parallel \<noteq> 0" using chain parallel by simp_all
  have vv: "vw = mul32 W parallel sdiv chain" "vh = mul32 H chain sdiv parallel"
    using size c0 p0 unfolding m by simp_all
  show ?thesis
    unfolding m vv
    using Vertical_bounds [OF chain parallel cW pH W0 H0 oW oH]
      Vertical_injective [OF chain parallel cW pH W0 H0 oW oH]
    by blast
next
  case (WindmillPixelMapper z0 s0 c0 p0)
  with conf obtain z s where p2: "parallel = 2" and m: "m = WindmillPixelMapper z s chain 2"
    using SetParameters_Windmill_shape by blast
  have c0: "chain \<noteq> 0" using chain by simp
  have vv: "vw = mul32 (mul32 (H sdiv 2) chain) 2" "vh = W sdiv chain"
    using size c0 unfolding m by (simp_all add: Let_def)
  have "W * 1 \<le> W * parallel" using W0 parallel by (intro mult_left_mono) simp_all
  then have w: "W < 2 ^ 31" using oW by simp
  show ?thesis
    unfolding m vv
    using Windmill_bounds [OF chain W0 H0 w oH] Windmill_injective [OF chain W0 H0 w oH] by blast
qed

text \<open>
  The hypotheses are met, for instance, by the V-mapper with the parameter \<open>Z\<close>, a chain
  of 2 and one parallel chain on a 64 by 32 matrix, and by the Windmill mapper with the
  parameter \<open>Z\<close>, a chain of 2 and 2 parallel chains on a 128 by 64 matrix.
\<close>

lemma mapping_agrees_in_data_model_instances:
  "SetParameters (VerticalMapper False 1 1) 2 1 (Some ''Z'') = (True, VerticalMapper True 2 1)
   \<and> GetSizeMapping (VerticalMapper True 2 1) 64 32 = Inr (True, 32, 64)
   \<and> in_canvas 32 64 5 40
   \<and> (\<exists>mx my. MapVisibleToMatrix (VerticalMapper True 2 1) 64 32 5 40 = Inr (mx, my)
         \<and> in_canvas 64 32 mx my)
   \<and> SetParameters (WindmillPixelMapper False False 1 1) 2 2 (Some ''Z'')
        = (True, WindmillPixelMapper True False 2 2)
   \<and> GetSizeMapping (WindmillPixelMapper True False 2 2) 128 64 = Inr (True, 128, 64)
   \<and> in_canvas 128 64 100 10
   \<and> (\<exists>mx my. MapVisibleToMatrix (WindmillPixelMapper True False 2 2) 128 64 100 10 = Inr (mx, my)
         \<and> in_canvas 128 64 mx my)"
proof -
  have conf: "SetParameters (VerticalMapper False 1 1) 2 1 (Some ''Z'') = (True, VerticalMapper True 2 1)"
    by (simp add: strcasecmp_equal_Z)
  have size: "GetSizeMapping (VerticalMapper True 2 1) 64 32 = Inr (True, 32, 64)"
    by (simp add: sdiv_nonneg mul32_def to_int_def)
  have rot: "\<forall>a. VerticalMapper True 2 1 = RotatePixelMapper a \<longrightarrow> a = 0 \<or> a = 90 \<or> a = 180 \<or> a = 270"
    by simp
  have vis: "in_canvas 32 64 5 40"
    by (simp add: in_canvas_def)
  have n: "(1::int) \<le> 2" "(1::int) \<le> 1" "(0::int) \<le> 64" "(0::int) \<le> 32"
    "(2::int) dvd 64" "(1::int) dvd 32" "(64::int) * 1 < 2 ^ 31" "(32::int) * 2 < 2 ^ 31"
    by simp_all
  from mapping_agrees_in_data_model [OF conf size n rot] vis
  have v: "\<exists>mx my. MapVisibleToMatrix (VerticalMapper True 2 1) 64 32 5 40 = Inr (mx, my)
         \<and> in_canvas 64 32 mx my"
    by blast
  have wconf: "SetParameters (WindmillPixelMapper False False 1 1) 2 2 (Some ''Z'')
        = (True, WindmillPixelMapper True False 2 2)"
    by simp
  have wsize: "GetSizeMapping (WindmillPixelMapper True False 2 2) 128 64 = Inr (True, 128, 64)"
    by (simp add: sdiv_nonneg mul32_def to_int_def)
  have wrot: "\<forall>a. WindmillPixelMapper True False 2 2 = RotatePixelMapper a
      \<longrightarrow> a = 0 \<or> a = 90 \<or> a = 180 \<or> a = 270"
    by simp
  have wvis: "in_canvas 128 64 100 10"
    by (simp add: in_canvas_def)
  have wn: "(1::int) \<le> 2" "(1::int) \<le> 2" "(0::int) \<le> 128" "(0::int) \<le> 64"
    "(2::int) dvd 128" "(2::int) dvd 64" "(128::int) * 2 < 2 ^ 31" "(64::int) * 2 < 2 ^ 31"
    by simp_all
  from mapping_agrees_in_data_model [OF wconf wsize wn wrot] wvis
  have w: "\<exists>mx my. MapVisibleToMatrix (WindmillPixelMapper True False 2 2) 128 64 100 10 = Inr (mx, my)
         \<and> in_canvas 128 64 mx my"
    by blast
  from conf size vis v wconf wsize wvis w show ?thesis by (intro conjI)
qed

section \<open>Registry and lookup\<close>



text \<open>
  Claim C9. \<open>FindPixelMapper\<close> returns the null pointer exactly when the lower-cased
  name has no entry in the registry or \<open>SetParameters\<close> of the entry found returns false.
  When the name has no entry the registry after the call is the registry before it; this
  is the case for the name \<open>doesnotexist\<close> and the registry of the five built-in mappers.
  Every mapper returned is a registered mapper as a successful \<open>SetParameters\<close> left it.
\<close>

theorem FindPixelMapper_null:
  "(fst (FindPixelMapper registry name chain parallel param) = None \<longleftrightarrow>
      registry (map tolower name) = None
      \<or> (\<exists>m. registry (map tolower name) = Some m
             \<and> \<not> fst (SetParameters m chain parallel param)))
   \<and> (registry (map tolower name) = None \<longrightarrow>
        snd (FindPixelMapper registry name chain parallel param) = registry)
   \<and> (\<forall>m'. fst (FindPixelMapper registry name chain parallel param) = Some m' \<longrightarrow>
        (\<exists>m. registry (map tolower name) = Some m
            \<and> SetParameters m chain parallel param = (True, m')))
   \<and> (CreateMapperMap z0 c0 p0 = Some r \<longrightarrow>
        FindPixelMapper r ''doesnotexist'' 1 1 (Some []) = (None, r))"
proof -
  have general: "(fst (FindPixelMapper registry name chain parallel param) = None \<longleftrightarrow>
      registry (map tolower name) = None
      \<or> (\<exists>m. registry (map tolower name) = Some m
             \<and> \<not> fst (SetParameters m chain parallel param)))
   \<and> (registry (map tolower name) = None \<longrightarrow>
        snd (FindPixelMapper registry name chain parallel param) = registry)
   \<and> (\<forall>m'. fst (FindPixelMapper registry name chain parallel param) = Some m' \<longrightarrow>
        (\<exists>m. registry (map tolower name) = Some m
            \<and> SetParameters m chain parallel param = (True, m')))"
  proof (cases "registry (map tolower name)")
    case None
    then show ?thesis by (simp add: FindPixelMapper_miss)
  next
    case (Some m)
    show ?thesis
      unfolding FindPixelMapper_hit [of registry name m, OF Some] using Some
      by (cases "SetParameters m chain parallel param") auto
  qed
  have unknown: "CreateMapperMap z0 c0 p0 = Some r \<longrightarrow>
        FindPixelMapper r ''doesnotexist'' 1 1 (Some []) = (None, r)"
  proof
    assume created: "CreateMapperMap z0 c0 p0 = Some r"
    have "r ''doesnotexist'' = None"
      using created unfolding CreateMapperMap_eq by auto
    then have "r (map tolower ''doesnotexist'') = None"
      by (simp only: lower_names)
    then show "FindPixelMapper r ''doesnotexist'' 1 1 (Some []) = (None, r)"
      by (rule FindPixelMapper_miss)
  qed
  from general unknown show ?thesis by blast
qed

theorem FindPixelMapper_null_witness:
  "fst (FindPixelMapper [''mirror'' \<mapsto> MirrorPixelMapper True] ''MIRROR'' 1 1 (Some ''X'')) = None
   \<and> snd (FindPixelMapper [''mirror'' \<mapsto> MirrorPixelMapper True] ''doesnotexist'' 1 1 (Some []))
       = [''mirror'' \<mapsto> MirrorPixelMapper True]"
proof -
  have hit: "[''mirror'' \<mapsto> MirrorPixelMapper True] (map tolower ''MIRROR'') = Some (MirrorPixelMapper True)"
    by (simp only: lower_names fun_upd_same)
  have rejected: "\<not> fst (SetParameters (MirrorPixelMapper True) 1 1 (Some ''X''))"
    by simp
  have miss: "[''mirror'' \<mapsto> MirrorPixelMapper True] (map tolower ''doesnotexist'') = None"
    by (simp add: lower_names)
  from FindPixelMapper_null [of "[''mirror'' \<mapsto> MirrorPixelMapper True]" "''MIRROR''" 1 1 "Some ''X''"]
    hit rejected
  have "fst (FindPixelMapper [''mirror'' \<mapsto> MirrorPixelMapper True] ''MIRROR'' 1 1 (Some ''X'')) = None"
    by blast
  moreover
  from FindPixelMapper_null [of "[''mirror'' \<mapsto> MirrorPixelMapper True]" "''doesnotexist''" 1 1 "Some []"]
    miss
  have "snd (FindPixelMapper [''mirror'' \<mapsto> MirrorPixelMapper True] ''doesnotexist'' 1 1 (Some []))
       = [''mirror'' \<mapsto> MirrorPixelMapper True]"
    by blast
  ultimately show ?thesis by simp
qed

end
